theory Spec2Isabelle
  imports Main
begin

section \<open>Values of the runtime\<close>

text \<open>
  The source is \<^verbatim>\<open>src/telegram2discord/setup.ts\<close>. Its two functions,
  \<^verbatim>\<open>clearOldMessages\<close> and \<^verbatim>\<open>setup\<close>, build promise chains on the
  Telegram client. A promise is modelled by its state; the result with which the
  environment settles an outstanding request is a \<open>settled\<close> value.
\<close>

datatype js_error = TypeError string | Error string | Failure string

datatype 'a settled = Resolves 'a | Rejects js_error

datatype 'a promise = Pending | Fulfilled 'a | Rejected js_error

text \<open>
  An update of the Telegram API, of which the code reads \<^verbatim>\<open>update_id\<close> only: an
  integer, far inside the range where adding 1 to a JavaScript number is exact.
\<close>

record update =
  update_id :: int

text \<open>One call \<^verbatim>\<open>tgBot.telegram.getUpdates(timeout, limit, offset, [])\<close>.\<close>

record fetch =
  fetch_timeout :: nat
  fetch_limit :: nat
  fetch_offset :: int
  fetch_allowed :: "string list"

section \<open>clearOldMessages\<close>

definition timeout :: nat where
  "timeout = 0"

definition limit :: nat where
  "limit = 100"

definition getUpdates :: "int \<Rightarrow> fetch" where
  "getUpdates offset =
     \<lparr>fetch_timeout = timeout, fetch_limit = limit, fetch_offset = offset, fetch_allowed = []\<rparr>"

text \<open>
  The callback given to \<^verbatim>\<open>.then\<close>:
  \<^verbatim>\<open>R.ifElse(R.isEmpty, R.always(undefined), R.compose(recurse, R.add(1), R.prop("update_id"), R.last))\<close>.
  \<open>None\<close> is the \<^verbatim>\<open>undefined\<close> of the empty batch, \<open>Some newOffset\<close> the offset
  handed to the recursive call.
\<close>

definition nextOffset :: "update list \<Rightarrow> int option" where
  "nextOffset batch = (if batch = [] then None else Some (update_id (last batch) + 1))"

text \<open>
  The recursion of \<^verbatim>\<open>clearOldMessages(tgBot, offset)\<close> against the results that
  the Telegram server gives to the successive fetches, in order. The function returns
  the fetches it issued and the state of the promise it returned. A fetch whose result
  is not in the list has not been answered: the promise is still pending. A rejected
  fetch rejects the whole chain (there is no rejection handler in it).
\<close>

fun clearOldMessages :: "update list settled list \<Rightarrow> int \<Rightarrow> fetch list \<times> unit promise" where
  "clearOldMessages [] offset = ([getUpdates offset], Pending)"
| "clearOldMessages (Rejects e # rs) offset = ([getUpdates offset], Rejected e)"
| "clearOldMessages (Resolves batch # rs) offset =
     (case nextOffset batch of
        None \<Rightarrow> ([getUpdates offset], Fulfilled ())
      | Some newOffset \<Rightarrow>
          (let (fs, p) = clearOldMessages rs newOffset in (getUpdates offset # fs, p)))"

text \<open>The default parameter \<^verbatim>\<open>offset = -1\<close>.\<close>

definition clearOldMessages_default :: "update list settled list \<Rightarrow> fetch list \<times> unit promise" where
  "clearOldMessages_default rs = clearOldMessages rs (- 1)"

section \<open>Data of setup\<close>

text \<open>The result of \<^verbatim>\<open>getMe\<close>: the bot's own identity.\<close>

record user =
  user_id :: nat
  username :: string

record bot_command =
  command :: string
  description :: string

record rights =
  can_manage_chat :: bool
  can_delete_messages :: bool
  can_change_info :: bool
  can_invite_users :: bool
  can_post_messages :: bool
  can_edit_messages :: bool
  can_pin_messages :: bool
  can_manage_topics :: bool
  is_anonymous :: bool
  can_manage_video_chats :: bool
  can_restrict_members :: bool
  can_promote_members :: bool

text \<open>
  The middlewares and endwares that the source names (their bodies are in other
  modules), and the three ways of putting one on the dispatcher:
  \<^verbatim>\<open>tgBot.command(name, h)\<close>, \<^verbatim>\<open>tgBot.use(h)\<close>, \<^verbatim>\<open>tgBot.on(types, h)\<close>.
\<close>

datatype handler =
    chatinfo | threadinfo | channelChatInfo
  | addTediCrossObj | addMessageObj | addMessageId | addBridgesToContext
  | informThisIsPrivateBot | removeD2TBridges | removeBridgesIgnoringCommands
  | removeBridgesIgnoringJoinMessages | removeBridgesIgnoringLeaveMessages
  | newChatMembers | leftChatMember
  | addFromObj | addReplyObj | addForwardFrom | addTextObj | addFileObj | addFileLink
  | addPreparedObj | handleEdits | relayMessage

datatype registration = Command string handler | Use handler | On "string list" handler

fun reg_handler :: "registration \<Rightarrow> handler" where
  "reg_handler (Command name h) = h"
| "reg_handler (Use h) = h"
| "reg_handler (On types h) = h"

text \<open>Objects whose insides the source does not touch are references.\<close>

type_synonym ref = nat

record Settings =
  telegram_skipOldMessages :: bool

text \<open>
  The object assigned to \<^verbatim>\<open>tgBot.context.TediCross\<close>; \<open>'b\<close> is the type of a
  \<^verbatim>\<open>BridgeMap\<close>. The new \<^verbatim>\<open>Set\<close> and \<^verbatim>\<open>Map\<close> are insertion-ordered
  containers, empty when created.
\<close>

record 'b tediCross =
  me :: user
  bridgeMap :: 'b
  dcBot :: ref
  settings :: Settings
  messageMap :: ref
  logger :: ref
  antiInfoSpamSet :: "ref list"
  groupIdMap :: "(string \<times> ref list) list"

datatype error_handler = DefaultHandler | CatchHandler

text \<open>
  The part of the Telegraf bot that \<^verbatim>\<open>setup\<close> reads and writes:
  \<^verbatim>\<open>tgBot.context.TediCross\<close> (\<open>None\<close> is \<^verbatim>\<open>undefined\<close>), the registered
  handlers in order, the error handler set by \<^verbatim>\<open>tgBot.catch\<close>, and whether the
  polling loop runs.
\<close>

record 'b tgbot =
  context_TediCross :: "'b tediCross option"
  middleware :: "registration list"
  errorHandler :: error_handler
  polling :: bool

text \<open>
  A bot as the constructor \<^verbatim>\<open>new Telegraf(token)\<close> leaves it (the constructor is
  Telegraf's, not the repository's): the context is \<^verbatim>\<open>{}\<close>, nothing is registered,
  errors are rethrown, polling is off.
\<close>

definition new_Telegraf :: "'b tgbot" where
  "new_Telegraf =
     \<lparr>context_TediCross = None, middleware = [], errorHandler = DefaultHandler, polling = False\<rparr>"

text \<open>The parameters of \<^verbatim>\<open>setup(logger, tgBot, dcBot, messageMap, bridgeMap, settings)\<close>.\<close>

record 'b setup_args =
  logger_arg :: ref
  tgBot_arg :: "'b tgbot"
  dcBot_arg :: ref
  messageMap_arg :: ref
  bridgeMap_arg :: 'b
  settings_arg :: Settings

text \<open>
  What the code does to the outside, in program order: the subscription on the
  settings object, the calls on \<^verbatim>\<open>tgBot.telegram\<close>, the timers, the registrations
  on the dispatcher.
\<close>

datatype action =
    SettingsOn string
  | GetMe
  | GetUpdates fetch
  | Sleep nat
  | SetMyCommands "bot_command list" string
  | SetTimeout nat
  | GetMyCommands
  | SetMyDefaultAdministratorRights rights bool
  | Register registration
  | Catch
  | StartPolling

datatype log_entry =
    Info string
  | InfoCommands string "bot_command list"
  | ErrorEntry js_error

text \<open>
  The state of one run of \<^verbatim>\<open>setup\<close>: the bot, the listener on the settings
  object, the promises the function creates (\<open>drain\<close> is the offset of the fetch that
  \<^verbatim>\<open>clearOldMessages\<close> awaits, \<open>second_p\<close> the second element given to
  \<^verbatim>\<open>Promise.all\<close>, \<open>all_p\<close> the promise of \<^verbatim>\<open>Promise.all\<close>, \<open>ready\<close> the
  promise stored in \<^verbatim>\<open>tgBot.ready\<close>), the detached requests and timers, the lines
  given to the logger, the actions so far, the rejections that no handler takes, and
  the exceptions thrown out of the listener to the emitter, and whether the process
  has exited. What the emitter does with an exception of the listener is not in the
  source: it is recorded.
\<close>

record 'b world =
  bot :: "'b tgbot"
  bridgeUpdate_listener :: bool
  getMe_p :: "user promise"
  drain :: "int option"
  sleeping :: bool
  second_p :: "unit promise"
  all_p :: "user promise"
  ready :: "unit promise"
  setMyCommands_pending :: bool
  verify_timer :: bool
  getMyCommands_pending :: bool
  rights_pending :: "bool list"
  log :: "log_entry list"
  trace :: "action list"
  unhandled :: "js_error list"
  thrown :: "js_error list"
  exited :: bool

text \<open>
  What the environment does to a run: it settles an outstanding request, fires a
  timer, emits \<^verbatim>\<open>bridgeUpdate\<close> on the settings object, reports an error that a
  stage raised while an update from polling was processed, or ends the polling loop.
\<close>

datatype 'b event =
    GetMeDone "user settled"
  | GetUpdatesDone "update list settled"
  | SleepDone
  | SetMyCommandsDone "bool settled"
  | TimeoutDone
  | GetMyCommandsDone "bot_command list settled"
  | SetMyDefaultAdministratorRightsDone bool "bool settled"
  | BridgeUpdate 'b
  | StageError js_error
  | PollingStopped "unit settled"

section \<open>The callbacks of setup\<close>

text \<open>Decimal rendering of a number, as string concatenation and templates do.\<close>

definition digit :: "nat \<Rightarrow> char" where
  "digit n = ''0123456789'' ! n"

function toString :: "nat \<Rightarrow> string" where
  "toString n = (if n < 10 then [digit n] else toString (n div 10) @ [digit (n mod 10)])"
  by pat_completeness auto

termination
  by (relation "measure (\<lambda>n. n)") auto

declare toString.simps [simp del]

text \<open>
  The listener of lines 84-87: one assignment to the \<^verbatim>\<open>bridgeMap\<close> property of
  \<^verbatim>\<open>tgBot.context.TediCross\<close>. Setting a property of \<^verbatim>\<open>undefined\<close> throws a
  TypeError.
\<close>

definition on_bridgeUpdate :: "'b \<Rightarrow> 'b tgbot \<Rightarrow> js_error + 'b tgbot" where
  "on_bridgeUpdate newBridgeMap tg =
     (case context_TediCross tg of
        None \<Rightarrow> Inl (TypeError ''Cannot set properties of undefined (setting bridgeMap)'')
      | Some t \<Rightarrow> Inr (tg\<lparr>context_TediCross := Some (t\<lparr>bridgeMap := newBridgeMap\<rparr>)\<rparr>))"

definition myCommands :: "bot_command list" where
  "myCommands =
     [\<lparr>command = ''chatinfo'', description = ''Get info about the chat''\<rparr>,
      \<lparr>command = ''threadinfo'', description = ''Get info about the thread''\<rparr>]"

definition defaultPermissions :: rights where
  "defaultPermissions =
     \<lparr>can_manage_chat = True, can_delete_messages = True, can_change_info = True,
      can_invite_users = True, can_post_messages = True, can_edit_messages = True,
      can_pin_messages = True, can_manage_topics = True, is_anonymous = False,
      can_manage_video_chats = False, can_restrict_members = False,
      can_promote_members = False\<rparr>"

text \<open>
  The registrations of lines 173-198, in order. The line that would register
  \<^verbatim>\<open>middlewares.removeBridgesIgnoringCommands\<close> is a comment in the source.
\<close>

definition pipeline :: "registration list" where
  "pipeline =
     [Command ''chatinfo'' chatinfo,
      Command ''threadinfo'' threadinfo,
      Use channelChatInfo,
      Use addTediCrossObj,
      Use addMessageObj,
      Use addMessageId,
      Use addBridgesToContext,
      Use informThisIsPrivateBot,
      Use removeD2TBridges,
      On [''new_chat_members''] removeBridgesIgnoringJoinMessages,
      On [''left_chat_member''] removeBridgesIgnoringLeaveMessages,
      On [''new_chat_members''] newChatMembers,
      On [''left_chat_member''] leftChatMember,
      Use addFromObj,
      Use addReplyObj,
      Use addForwardFrom,
      Use addTextObj,
      Use addFileObj,
      Use addFileLink,
      Use addPreparedObj,
      On [''edited_message'', ''edited_channel_post''] handleEdits,
      Use relayMessage]"

text \<open>
  The callback of lines 115-120, run with the re-fetched commands: it logs them and
  throws when there are fewer than two. The throw rejects the promise of this
  \<^verbatim>\<open>.then\<close>, which nothing handles.
\<close>

definition on_getMyCommands :: "bot_command list \<Rightarrow> log_entry list \<times> unit settled" where
  "on_getMyCommands commands =
     ([InfoCommands ''Telegram commands:'' commands],
      if length commands < 2
      then Rejects (Error (''Telegram: Expected 2 commands, got '' @ toString (length commands)))
      else Resolves ())"

text \<open>
  The first \<^verbatim>\<open>.then\<close> callback of the ready chain (lines 96-208), run with the
  identity \<open>m\<close>: log it, request the commands and the two default administrator
  rights (three detached promises), assign the global context, register the handlers,
  set the error handler.
\<close>

definition on_identity :: "'b setup_args \<Rightarrow> user \<Rightarrow> 'b world \<Rightarrow> 'b world" where
  "on_identity a m w =
     w\<lparr>log := log w @ [Info (''Telegram: '' @ username m @ '' ('' @ toString (user_id m) @ '')'')],
       trace := trace w @
         [SetMyCommands myCommands ''default'',
          SetMyDefaultAdministratorRights defaultPermissions False,
          SetMyDefaultAdministratorRights defaultPermissions True] @
         map Register pipeline @ [Catch],
       setMyCommands_pending := True,
       rights_pending := rights_pending w @ [False, True],
       bot := (bot w)
         \<lparr>context_TediCross := Some
            \<lparr>me = m, bridgeMap = bridgeMap_arg a, dcBot = dcBot_arg a,
             settings = settings_arg a, messageMap = messageMap_arg a,
             logger = logger_arg a, antiInfoSpamSet = [], groupIdMap = []\<rparr>,
          middleware := middleware (bot w) @ pipeline,
          errorHandler := CatchHandler\<rparr>\<rparr>"

text \<open>
  The second callback (line 211): \<^verbatim>\<open>tgBot.startPolling()\<close>. Its promise is the
  one of the polling loop, so \<^verbatim>\<open>tgBot.ready\<close> stays pending while the loop runs.
\<close>

definition startPolling :: "'b world \<Rightarrow> 'b world" where
  "startPolling w = w\<lparr>trace := trace w @ [StartPolling], bot := (bot w)\<lparr>polling := True\<rparr>\<rparr>"

text \<open>
  \<^verbatim>\<open>Promise.all([getMe, second])\<close>: fulfilled with the values once both are
  fulfilled, rejected with the reason of the first rejection. The callbacks use the
  first value only.
\<close>

definition promise_all :: "user promise \<Rightarrow> unit promise \<Rightarrow> user promise" where
  "promise_all p q =
     (case p of
        Rejected e \<Rightarrow> Rejected e
      | Pending \<Rightarrow> (case q of Rejected e \<Rightarrow> Rejected e | _ \<Rightarrow> Pending)
      | Fulfilled m \<Rightarrow>
          (case q of Rejected e \<Rightarrow> Rejected e | Pending \<Rightarrow> Pending | Fulfilled u \<Rightarrow> Fulfilled m))"

text \<open>
  After one of the two promises has settled: when \<^verbatim>\<open>Promise.all\<close> settles now, the
  chain \<^verbatim>\<open>.then(...).then(...)\<close> runs in the same turn (its callbacks are
  microtasks). A rejection skips both callbacks and rejects \<^verbatim>\<open>tgBot.ready\<close>.
\<close>

definition settle_all :: "'b setup_args \<Rightarrow> 'b world \<Rightarrow> 'b world" where
  "settle_all a w =
     (if all_p w \<noteq> Pending then w
      else case promise_all (getMe_p w) (second_p w) of
        Pending \<Rightarrow> w
      | Rejected e \<Rightarrow> w\<lparr>all_p := Rejected e, ready := Rejected e\<rparr>
      | Fulfilled m \<Rightarrow> startPolling (on_identity a m (w\<lparr>all_p := Fulfilled m\<rparr>)))"

text \<open>
  The error handler set by \<^verbatim>\<open>tgBot.catch\<close> (lines 201-207) logs the error and
  returns.
\<close>

definition catch_handler :: "js_error \<Rightarrow> 'b world \<Rightarrow> 'b world" where
  "catch_handler err w = w\<lparr>log := log w @ [ErrorEntry err]\<rparr>"

text \<open>
  Modelled from the spec: the dispatcher (Telegraf's, not under src/) funnels an
  uncaught error of a stage to the error handler of the bot. With the handler of
  \<^verbatim>\<open>tgBot.catch\<close> the process goes on; the handler of a new bot rethrows, which
  ends the polling loop with that error.
\<close>

definition handleError :: "js_error \<Rightarrow> 'b world \<Rightarrow> 'b world" where
  "handleError err w =
     (case errorHandler (bot w) of
        CatchHandler \<Rightarrow> catch_handler err w
      | DefaultHandler \<Rightarrow> w\<lparr>bot := (bot w)\<lparr>polling := False\<rparr>, ready := Rejected err\<rparr>)"

section \<open>setup\<close>

definition to_promise :: "'a settled \<Rightarrow> 'a promise" where
  "to_promise r = (case r of Resolves v \<Rightarrow> Fulfilled v | Rejects e \<Rightarrow> Rejected e)"

text \<open>
  The synchronous part of \<^verbatim>\<open>setup\<close> (lines 84-95): subscribe the listener, call
  \<^verbatim>\<open>getMe\<close>, and start either \<^verbatim>\<open>clearOldMessages(tgBot)\<close> (first fetch at the
  default offset) or \<^verbatim>\<open>sleep(1000)\<close>. Everything else waits for the environment.
  (The name has a suffix: \<open>setup\<close> is a keyword of Isabelle.)
\<close>

definition setup_fn :: "'b setup_args \<Rightarrow> 'b world" where
  "setup_fn a =
     \<lparr>bot = tgBot_arg a,
      bridgeUpdate_listener = True,
      getMe_p = Pending,
      drain = (if telegram_skipOldMessages (settings_arg a) then Some (- 1) else None),
      sleeping = (\<not> telegram_skipOldMessages (settings_arg a)),
      second_p = Pending,
      all_p = Pending,
      ready = Pending,
      setMyCommands_pending = False,
      verify_timer = False,
      getMyCommands_pending = False,
      rights_pending = [],
      log = [],
      trace = [SettingsOn ''bridgeUpdate'', GetMe,
               if telegram_skipOldMessages (settings_arg a)
               then GetUpdates (getUpdates (- 1)) else Sleep 1000],
      unhandled = [],
      thrown = [],
      exited = False\<rparr>"

text \<open>
  A rejection of a promise that has no rejection handler. The three detached promises
  of the first callback have none in the source (\<^verbatim>\<open>.then\<close> is given a fulfilment
  callback only, or nothing). The runtime (Node.js, by its default since version 15)
  raises such a rejection as an uncaught exception and ends the process with exit
  code 1: nothing runs after it, the polling loop included.
\<close>

definition unhandledRejection :: "js_error \<Rightarrow> 'b world \<Rightarrow> 'b world" where
  "unhandledRejection e w =
     w\<lparr>unhandled := unhandled w @ [e], exited := True, bot := (bot w)\<lparr>polling := False\<rparr>\<rparr>"

text \<open>
  One turn of the event loop of a live process. An event that answers nothing
  outstanding changes nothing. The fetch case is the \<^verbatim>\<open>.then\<close> of
  \<^verbatim>\<open>clearOldMessages\<close>; the commands and rights cases are the detached promises of
  the first callback.
\<close>

fun turn :: "'b setup_args \<Rightarrow> 'b event \<Rightarrow> 'b world \<Rightarrow> 'b world" where
  "turn a (GetMeDone r) w =
     (if getMe_p w \<noteq> Pending then w
      else settle_all a (w\<lparr>getMe_p := to_promise r\<rparr>))"
| "turn a (GetUpdatesDone r) w =
     (case drain w of
        None \<Rightarrow> w
      | Some offset \<Rightarrow>
          (case r of
             Rejects e \<Rightarrow> settle_all a (w\<lparr>drain := None, second_p := Rejected e\<rparr>)
           | Resolves batch \<Rightarrow>
               (case nextOffset batch of
                  None \<Rightarrow> settle_all a (w\<lparr>drain := None, second_p := Fulfilled ()\<rparr>)
                | Some newOffset \<Rightarrow>
                    w\<lparr>drain := Some newOffset,
                      trace := trace w @ [GetUpdates (getUpdates newOffset)]\<rparr>)))"
| "turn a SleepDone w =
     (if sleeping w then settle_all a (w\<lparr>sleeping := False, second_p := Fulfilled ()\<rparr>) else w)"
| "turn a (SetMyCommandsDone r) w =
     (if \<not> setMyCommands_pending w then w
      else case r of
        Resolves ok \<Rightarrow>
          w\<lparr>setMyCommands_pending := False, verify_timer := True,
            trace := trace w @ [SetTimeout 5000]\<rparr>
      | Rejects e \<Rightarrow> unhandledRejection e (w\<lparr>setMyCommands_pending := False\<rparr>))"
| "turn a TimeoutDone w =
     (if verify_timer w
      then w\<lparr>verify_timer := False, getMyCommands_pending := True,
             trace := trace w @ [GetMyCommands]\<rparr>
      else w)"
| "turn a (GetMyCommandsDone r) w =
     (if \<not> getMyCommands_pending w then w
      else case r of
        Rejects e \<Rightarrow> unhandledRejection e (w\<lparr>getMyCommands_pending := False\<rparr>)
      | Resolves commands \<Rightarrow>
          (case snd (on_getMyCommands commands) of
             Resolves u \<Rightarrow>
               w\<lparr>getMyCommands_pending := False,
                 log := log w @ fst (on_getMyCommands commands)\<rparr>
           | Rejects e \<Rightarrow>
               unhandledRejection e
                 (w\<lparr>getMyCommands_pending := False,
                    log := log w @ fst (on_getMyCommands commands)\<rparr>)))"
| "turn a (SetMyDefaultAdministratorRightsDone forChannels r) w =
     (if forChannels \<notin> set (rights_pending w) then w
      else case r of
        Resolves ok \<Rightarrow> w\<lparr>rights_pending := remove1 forChannels (rights_pending w)\<rparr>
      | Rejects e \<Rightarrow>
          unhandledRejection e (w\<lparr>rights_pending := remove1 forChannels (rights_pending w)\<rparr>))"
| "turn a (BridgeUpdate newBridgeMap) w =
     (if \<not> bridgeUpdate_listener w then w
      else case on_bridgeUpdate newBridgeMap (bot w) of
        Inl e \<Rightarrow> w\<lparr>thrown := thrown w @ [e]\<rparr>
      | Inr tg \<Rightarrow> w\<lparr>bot := tg\<rparr>)"
| "turn a (StageError err) w =
     (if polling (bot w) then handleError err w else w)"
| "turn a (PollingStopped r) w =
     (if polling (bot w)
      then w\<lparr>bot := (bot w)\<lparr>polling := False\<rparr>, ready := to_promise r\<rparr>
      else w)"

text \<open>One event of the environment: a process that has exited takes none.\<close>

definition step :: "'b setup_args \<Rightarrow> 'b event \<Rightarrow> 'b world \<Rightarrow> 'b world" where
  "step a e w = (if exited w then w else turn a e w)"

text \<open>A run: the events of the environment, one turn each, from the state after setup.\<close>

fun run :: "'b setup_args \<Rightarrow> 'b event list \<Rightarrow> 'b world \<Rightarrow> 'b world" where
  "run a [] w = w"
| "run a (e # es) w = run a es (step a e w)"

section \<open>Invariants of a run\<close>

text \<open>
  The actions of the synchronous part of setup, and the actions of the first callback
  of the ready chain.
\<close>

definition startup_trace :: "'b setup_args \<Rightarrow> action list" where
  "startup_trace a =
     [SettingsOn ''bridgeUpdate'', GetMe,
      if telegram_skipOldMessages (settings_arg a)
      then GetUpdates (getUpdates (- 1)) else Sleep 1000]"

definition identity_trace :: "action list" where
  "identity_trace =
     [SetMyCommands myCommands ''default'',
      SetMyDefaultAdministratorRights defaultPermissions False,
      SetMyDefaultAdministratorRights defaultPermissions True] @
     map Register pipeline @ [Catch]"

text \<open>
  Before the first callback of the ready chain has run, the bot is as it was created
  and nothing detached is under way (\<open>idle\<close>); after it, the pipeline, the error
  handler and the context are in place (\<open>installed\<close>). \<open>trace_inv\<close> gives the
  shape of the actions of a run: the synchronous part, the fetches of the draining,
  and, once \<^verbatim>\<open>Promise.all\<close> is fulfilled, the actions of the first callback, the
  polling call and the actions of the command check. \<open>state_inv\<close> relates the
  promises to each other and to the bot.
\<close>

definition idle :: "'b world \<Rightarrow> bool" where
  "idle w \<longleftrightarrow>
     bot w = new_Telegraf \<and> \<not> setMyCommands_pending w \<and> \<not> verify_timer w \<and>
     \<not> getMyCommands_pending w \<and> rights_pending w = [] \<and> log w = [] \<and> unhandled w = [] \<and>
     \<not> exited w"

definition installed :: "'b world \<Rightarrow> bool" where
  "installed w \<longleftrightarrow>
     middleware (bot w) = pipeline \<and> errorHandler (bot w) = CatchHandler \<and>
     context_TediCross (bot w) \<noteq> None"

definition trace_inv :: "'b setup_args \<Rightarrow> 'b world \<Rightarrow> bool" where
  "trace_inv a w \<longleftrightarrow>
     (\<exists>offs tail.
        trace w = startup_trace a @ map (\<lambda>off. GetUpdates (getUpdates off)) offs @ tail \<and>
        (\<not> telegram_skipOldMessages (settings_arg a) \<longrightarrow> offs = []) \<and>
        (case all_p w of
           Fulfilled m \<Rightarrow>
             (\<exists>v. tail = identity_trace @ StartPolling # v \<and> set v \<subseteq> {SetTimeout 5000, GetMyCommands})
         | _ \<Rightarrow> tail = []))"

definition state_inv :: "'b setup_args \<Rightarrow> 'b world \<Rightarrow> bool" where
  "state_inv a w \<longleftrightarrow>
     bridgeUpdate_listener w \<and>
     (sleeping w \<longrightarrow> \<not> telegram_skipOldMessages (settings_arg a)) \<and>
     (drain w \<noteq> None \<longrightarrow> telegram_skipOldMessages (settings_arg a)) \<and>
     ((second_p w = Pending) = (sleeping w \<or> drain w \<noteq> None)) \<and>
     (exited w \<longrightarrow> \<not> polling (bot w)) \<and>
     (case all_p w of
        Pending \<Rightarrow> promise_all (getMe_p w) (second_p w) = Pending \<and> ready w = Pending \<and> idle w
      | Rejected e \<Rightarrow>
          ready w = Rejected e \<and> (getMe_p w = Rejected e \<or> second_p w = Rejected e) \<and> idle w
      | Fulfilled m \<Rightarrow>
          getMe_p w = Fulfilled m \<and> second_p w = Fulfilled () \<and> installed w)"

text \<open>
  The event that completes the second task of startup step 1 with success: an empty
  batch for the draining, the elapsed timer for the delay.
\<close>

definition second_done :: "'b setup_args \<Rightarrow> 'b event" where
  "second_done a =
     (if telegram_skipOldMessages (settings_arg a) then GetUpdatesDone (Resolves []) else SleepDone)"

text \<open>
  What a run shows of the second task: the fetches among its actions, the answers that
  the server gave to fetches among its events, and whether the delay has elapsed.
\<close>

fun fetches :: "action list \<Rightarrow> fetch list" where
  "fetches [] = []"
| "fetches (GetUpdates f # xs) = f # fetches xs"
| "fetches (x # xs) = fetches xs"

fun answers :: "'b event list \<Rightarrow> update list settled list" where
  "answers [] = []"
| "answers (GetUpdatesDone r # es) = r # answers es"
| "answers (e # es) = answers es"

fun slept :: "'b event list \<Rightarrow> bool" where
  "slept [] = False"
| "slept (SleepDone # es) = True"
| "slept (e # es) = slept es"

section \<open>Example inputs\<close>

definition example_args :: "bool \<Rightarrow> nat setup_args" where
  "example_args skip =
     \<lparr>logger_arg = 1, tgBot_arg = new_Telegraf, dcBot_arg = 2, messageMap_arg = 3,
      bridgeMap_arg = 10, settings_arg = \<lparr>telegram_skipOldMessages = skip\<rparr>\<rparr>"

definition example_user :: user where
  "example_user = \<lparr>user_id = 4242, username = ''tedi_bot''\<rparr>"

section \<open>Lemmas about clearOldMessages\<close>

lemma nextOffset_nonempty: "batch \<noteq> [] \<Longrightarrow> nextOffset batch = Some (update_id (last batch) + 1)"
  by (simp add: nextOffset_def)

lemma nextOffset_empty: "nextOffset [] = None"
  by (simp add: nextOffset_def)

lemma clearOldMessages_drained:
  "\<forall>b \<in> set bs. b \<noteq> [] \<Longrightarrow>
   clearOldMessages (map Resolves bs @ Resolves [] # rest) offset =
     (map getUpdates (offset # map (\<lambda>b. update_id (last b) + 1) bs), Fulfilled ())"
proof (induction bs arbitrary: offset)
  case Nil
  then show ?case by (simp add: nextOffset_empty)
next
  case (Cons b bs)
  then have b: "b \<noteq> []" and bs: "\<forall>b \<in> set bs. b \<noteq> []" by simp_all
  show ?case
    using Cons.IH [OF bs, of "update_id (last b) + 1"]
    by (simp add: nextOffset_nonempty [OF b])
qed

lemma clearOldMessages_still_pending:
  "\<forall>b \<in> set bs. b \<noteq> [] \<Longrightarrow>
   clearOldMessages (map Resolves bs) offset =
     (map getUpdates (offset # map (\<lambda>b. update_id (last b) + 1) bs), Pending)"
proof (induction bs arbitrary: offset)
  case Nil
  then show ?case by simp
next
  case (Cons b bs)
  then have b: "b \<noteq> []" and bs: "\<forall>b \<in> set bs. b \<noteq> []" by simp_all
  show ?case
    using Cons.IH [OF bs, of "update_id (last b) + 1"]
    by (simp add: nextOffset_nonempty [OF b])
qed

lemma clearOldMessages_fulfilled_has_empty:
  "snd (clearOldMessages rs offset) = Fulfilled () \<Longrightarrow> Resolves [] \<in> set rs"
proof (induction rs offset rule: clearOldMessages.induct)
  case (1 offset)
  then show ?case by simp
next
  case (2 e rs offset)
  then show ?case by simp
next
  case (3 batch rs offset)
  show ?case
  proof (cases "batch = []")
    case True
    then show ?thesis by simp
  next
    case False
    then have n: "nextOffset batch = Some (update_id (last batch) + 1)"
      by (rule nextOffset_nonempty)
    from "3.prems" n
    have "snd (clearOldMessages rs (update_id (last batch) + 1)) = Fulfilled ()"
      by (simp split: prod.splits)
    with "3.IH" [OF n] show ?thesis by simp
  qed
qed

lemma limit_batch_nonempty: "length b = limit \<Longrightarrow> b \<noteq> []"
  by (auto simp: limit_def)

lemma clearOldMessages_first_fetch:
  "fst (clearOldMessages rs offset) = getUpdates offset # tl (fst (clearOldMessages rs offset))"
  by (induction rs offset rule: clearOldMessages.induct)
     (simp_all split: option.splits prod.splits)

section \<open>Evaluation of concrete runs\<close>

lemmas eval_defs =
  example_args_def example_user_def setup_fn_def settle_all_def promise_all_def to_promise_def
  on_identity_def startPolling_def new_Telegraf_def nextOffset_def getUpdates_def
  on_bridgeUpdate_def handleError_def catch_handler_def on_getMyCommands_def
  unhandledRejection_def step_def

section \<open>The invariants hold in every run\<close>

lemma state_inv_setup: "tgBot_arg a = new_Telegraf \<Longrightarrow> state_inv a (setup_fn a)"
  by (simp add: state_inv_def setup_fn_def idle_def promise_all_def)

lemma trace_inv_setup: "trace_inv a (setup_fn a)"
  by (simp add: trace_inv_def setup_fn_def startup_trace_def)

lemma state_inv_settle_all:
  assumes "bridgeUpdate_listener w"
    and "sleeping w \<longrightarrow> \<not> telegram_skipOldMessages (settings_arg a)"
    and "drain w \<noteq> None \<longrightarrow> telegram_skipOldMessages (settings_arg a)"
    and "(second_p w = Pending) = (sleeping w \<or> drain w \<noteq> None)"
    and "exited w \<longrightarrow> \<not> polling (bot w)"
    and "case all_p w of
        Pending \<Rightarrow> ready w = Pending \<and> idle w \<and> (\<forall>e. getMe_p w = Rejected e \<longrightarrow> (\<forall>e'. second_p w \<noteq> Rejected e'))
      | Rejected e \<Rightarrow>
          ready w = Rejected e \<and> (getMe_p w = Rejected e \<or> second_p w = Rejected e) \<and> idle w
      | Fulfilled m \<Rightarrow>
          getMe_p w = Fulfilled m \<and> second_p w = Fulfilled () \<and> installed w"
  shows "state_inv a (settle_all a w)"
  using assms
  by (auto simp: state_inv_def settle_all_def promise_all_def idle_def installed_def
      startPolling_def on_identity_def new_Telegraf_def
      split: promise.splits)

lemma state_inv_turn: "state_inv a w \<Longrightarrow> state_inv a (turn a e w)"
proof (cases e)
  case (GetMeDone r)
  assume inv: "state_inv a w"
  show ?thesis
  proof (cases "getMe_p w = Pending")
    case True
    have "state_inv a (settle_all a (w\<lparr>getMe_p := to_promise r\<rparr>))"
      using inv True
      by (intro state_inv_settle_all)
         (auto simp: state_inv_def idle_def promise_all_def to_promise_def
            split: promise.splits settled.splits)
    with True GetMeDone show ?thesis by simp
  next
    case False
    with inv GetMeDone show ?thesis by simp
  qed
next
  case (GetUpdatesDone r)
  assume inv: "state_inv a w"
  show ?thesis
  proof (cases "drain w")
    case None
    with inv GetUpdatesDone show ?thesis by simp
  next
    case (Some offset)
    show ?thesis
    proof (cases r)
      case (Rejects e)
      have "state_inv a (settle_all a (w\<lparr>drain := None, second_p := Rejected e\<rparr>))"
        using inv Some
        by (intro state_inv_settle_all)
           (auto simp: state_inv_def idle_def promise_all_def split: promise.splits)
      with Some Rejects GetUpdatesDone show ?thesis by simp
    next
      case (Resolves batch)
      show ?thesis
      proof (cases "nextOffset batch")
        case None
        have "state_inv a (settle_all a (w\<lparr>drain := None, second_p := Fulfilled ()\<rparr>))"
          using inv Some
          by (intro state_inv_settle_all)
             (auto simp: state_inv_def idle_def promise_all_def split: promise.splits)
        with Some Resolves None GetUpdatesDone show ?thesis by simp
      next
        case (Some newOffset)
        with inv \<open>drain w = Some offset\<close> Resolves GetUpdatesDone show ?thesis
          by (auto simp: state_inv_def idle_def installed_def split: promise.splits)
      qed
    qed
  qed
next
  case SleepDone
  assume inv: "state_inv a w"
  show ?thesis
  proof (cases "sleeping w")
    case True
    have "state_inv a (settle_all a (w\<lparr>sleeping := False, second_p := Fulfilled ()\<rparr>))"
      using inv True
      by (intro state_inv_settle_all)
         (auto simp: state_inv_def idle_def promise_all_def split: promise.splits)
    with True SleepDone show ?thesis by simp
  next
    case False
    with inv SleepDone show ?thesis by simp
  qed
next
  case (SetMyCommandsDone r)
  assume "state_inv a w"
  with SetMyCommandsDone show ?thesis
    by (auto simp: state_inv_def idle_def installed_def unhandledRejection_def
        split: promise.splits settled.splits)
next
  case TimeoutDone
  assume "state_inv a w"
  with TimeoutDone show ?thesis
    by (auto simp: state_inv_def idle_def installed_def split: promise.splits)
next
  case (GetMyCommandsDone r)
  assume "state_inv a w"
  with GetMyCommandsDone show ?thesis
    by (auto simp: state_inv_def idle_def installed_def unhandledRejection_def
        split: promise.splits settled.splits)
next
  case (SetMyDefaultAdministratorRightsDone forChannels r)
  assume "state_inv a w"
  with SetMyDefaultAdministratorRightsDone show ?thesis
    by (auto simp: state_inv_def idle_def installed_def unhandledRejection_def
        split: promise.splits settled.splits)
next
  case (BridgeUpdate nb)
  assume "state_inv a w"
  with BridgeUpdate show ?thesis
    by (auto simp: state_inv_def idle_def installed_def on_bridgeUpdate_def new_Telegraf_def
        split: promise.splits option.splits)
next
  case (StageError err)
  assume "state_inv a w"
  with StageError show ?thesis
    by (auto simp: state_inv_def idle_def installed_def handleError_def catch_handler_def
        new_Telegraf_def split: promise.splits error_handler.splits)
next
  case (PollingStopped r)
  assume "state_inv a w"
  with PollingStopped show ?thesis
    by (auto simp: state_inv_def idle_def installed_def new_Telegraf_def split: promise.splits)
qed


lemma state_inv_step: "state_inv a w \<Longrightarrow> state_inv a (step a e w)"
  by (simp add: step_def state_inv_turn)

lemma trace_inv_cong:
  "trace_inv a w \<Longrightarrow> trace w' = trace w \<Longrightarrow> all_p w' = all_p w \<Longrightarrow> trace_inv a w'"
  by (simp add: trace_inv_def)

lemma trace_inv_settle_all:
  assumes "trace_inv a w"
  shows "trace_inv a (settle_all a w)"
proof (cases "all_p w = Pending")
  case False
  with assms show ?thesis by (simp add: settle_all_def)
next
  case True
  from assms True obtain offs where
    tr: "trace w = startup_trace a @ map (\<lambda>off. GetUpdates (getUpdates off)) offs"
    and sk: "\<not> telegram_skipOldMessages (settings_arg a) \<longrightarrow> offs = []"
    by (auto simp: trace_inv_def)
  show ?thesis
  proof (cases "promise_all (getMe_p w) (second_p w)")
    case Pending
    with assms True show ?thesis by (simp add: settle_all_def)
  next
    case (Rejected e)
    with True tr sk show ?thesis
      by (auto simp: settle_all_def trace_inv_def)
  next
    case (Fulfilled m)
    have "trace (settle_all a w) =
        startup_trace a @ map (\<lambda>off. GetUpdates (getUpdates off)) offs @
          (identity_trace @ StartPolling # [])"
      using True Fulfilled tr
      by (simp add: settle_all_def startPolling_def on_identity_def identity_trace_def)
    moreover have "all_p (settle_all a w) = Fulfilled m"
      using True Fulfilled
      by (simp add: settle_all_def startPolling_def on_identity_def)
    ultimately show ?thesis
      unfolding trace_inv_def using sk
      by (intro exI [of _ offs] exI [of _ "identity_trace @ StartPolling # []"]) simp
  qed
qed

lemma state_inv_drain:
  "state_inv a w \<Longrightarrow> drain w = Some off \<Longrightarrow>
     telegram_skipOldMessages (settings_arg a) \<and> (\<forall>m. all_p w \<noteq> Fulfilled m)"
  by (auto simp: state_inv_def split: promise.splits)

lemma trace_inv_fetch:
  assumes "trace_inv a w" and "telegram_skipOldMessages (settings_arg a)"
    and "\<forall>m. all_p w \<noteq> Fulfilled m"
    and "trace w' = trace w @ [GetUpdates (getUpdates off)]" and "all_p w' = all_p w"
  shows "trace_inv a w'"
proof -
  from assms(1,3) obtain offs where
    tr: "trace w = startup_trace a @ map (\<lambda>off. GetUpdates (getUpdates off)) offs"
    by (cases "all_p w") (auto simp: trace_inv_def)
  have "trace w' = startup_trace a @ map (\<lambda>off. GetUpdates (getUpdates off)) (offs @ [off]) @ []"
    using tr assms(4) by simp
  then show ?thesis
    unfolding trace_inv_def using assms(2,3,5)
    by (intro exI [of _ "offs @ [off]"] exI [of _ "[]"]) (cases "all_p w", auto)
qed

lemma trace_inv_tail:
  assumes "trace_inv a w" and "all_p w = Fulfilled m"
    and "trace w' = trace w @ [x]" and "x \<in> {SetTimeout 5000, GetMyCommands}"
    and "all_p w' = all_p w"
  shows "trace_inv a w'"
proof -
  from assms(1,2) obtain offs v where
    tr: "trace w = startup_trace a @ map (\<lambda>off. GetUpdates (getUpdates off)) offs @
           identity_trace @ StartPolling # v"
    and sk: "\<not> telegram_skipOldMessages (settings_arg a) \<longrightarrow> offs = []"
    and v: "set v \<subseteq> {SetTimeout 5000, GetMyCommands}"
    by (auto simp: trace_inv_def)
  have "trace w' = startup_trace a @ map (\<lambda>off. GetUpdates (getUpdates off)) offs @
           (identity_trace @ StartPolling # (v @ [x]))"
    using tr assms(3) by simp
  then show ?thesis
    unfolding trace_inv_def using assms(2,4,5) sk v
    by (intro exI [of _ offs] exI [of _ "identity_trace @ StartPolling # (v @ [x])"]) auto
qed

lemma state_inv_detached:
  "state_inv a w \<Longrightarrow> setMyCommands_pending w \<or> verify_timer w \<Longrightarrow> \<exists>m. all_p w = Fulfilled m"
  by (cases "all_p w") (auto simp: state_inv_def idle_def)

lemma trace_inv_turn:
  assumes st: "state_inv a w" and tr: "trace_inv a w"
  shows "trace_inv a (turn a e w)"
proof (cases e)
  case (GetMeDone r)
  have "trace_inv a (settle_all a (w\<lparr>getMe_p := to_promise r\<rparr>))"
    by (rule trace_inv_settle_all) (rule trace_inv_cong [OF tr], simp_all)
  with tr GetMeDone show ?thesis by simp
next
  case (GetUpdatesDone r)
  show ?thesis
  proof (cases "drain w")
    case None
    with tr GetUpdatesDone show ?thesis by simp
  next
    case (Some offset)
    note d = state_inv_drain [OF st Some]
    have a: "trace_inv a (settle_all a (w\<lparr>drain := None, second_p := p\<rparr>))" for p
      by (rule trace_inv_settle_all) (rule trace_inv_cong [OF tr], simp_all)
    have b: "trace_inv a (w\<lparr>drain := Some off, trace := trace w @ [GetUpdates (getUpdates off)]\<rparr>)" for off
      using d by (intro trace_inv_fetch [OF tr, where off = off]) simp_all
    from a b Some GetUpdatesDone show ?thesis
      by (simp split: settled.splits option.splits)
  qed
next
  case SleepDone
  have "trace_inv a (settle_all a (w\<lparr>sleeping := False, second_p := Fulfilled ()\<rparr>))"
    by (rule trace_inv_settle_all) (rule trace_inv_cong [OF tr], simp_all)
  with tr SleepDone show ?thesis by simp
next
  case (SetMyCommandsDone r)
  show ?thesis
  proof (cases "setMyCommands_pending w")
    case False
    with tr SetMyCommandsDone show ?thesis by simp
  next
    case True
    with state_inv_detached [OF st] obtain m where m: "all_p w = Fulfilled m" by blast
    have a: "trace_inv a (w\<lparr>setMyCommands_pending := False, verify_timer := True,
            trace := trace w @ [SetTimeout 5000]\<rparr>)"
      by (rule trace_inv_tail [OF tr m, where x = "SetTimeout 5000"]) simp_all
    have b: "trace_inv a (unhandledRejection x (w\<lparr>setMyCommands_pending := False\<rparr>))" for x
      by (rule trace_inv_cong [OF tr]) (simp_all add: unhandledRejection_def)
    from a b True SetMyCommandsDone show ?thesis
      by (simp split: settled.splits)
  qed
next
  case TimeoutDone
  show ?thesis
  proof (cases "verify_timer w")
    case False
    with tr TimeoutDone show ?thesis by simp
  next
    case True
    with state_inv_detached [OF st] obtain m where m: "all_p w = Fulfilled m" by blast
    have "trace_inv a (w\<lparr>verify_timer := False, getMyCommands_pending := True,
            trace := trace w @ [GetMyCommands]\<rparr>)"
      by (rule trace_inv_tail [OF tr m, where x = GetMyCommands]) simp_all
    with True TimeoutDone show ?thesis by simp
  qed
next
  case (GetMyCommandsDone r)
  have "trace_inv a (unhandledRejection x (w\<lparr>getMyCommands_pending := False\<rparr>))" for x
    by (rule trace_inv_cong [OF tr]) (simp_all add: unhandledRejection_def)
  moreover have "trace_inv a (w\<lparr>getMyCommands_pending := False, log := l\<rparr>)" for l
    by (rule trace_inv_cong [OF tr]) simp_all
  moreover have "trace_inv a (unhandledRejection x (w\<lparr>getMyCommands_pending := False, log := l\<rparr>))"
    for x l
    by (rule trace_inv_cong [OF tr]) (simp_all add: unhandledRejection_def)
  ultimately show ?thesis
    using tr GetMyCommandsDone by (simp split: settled.splits)
next
  case (SetMyDefaultAdministratorRightsDone forChannels r)
  have "trace_inv a (w\<lparr>rights_pending := p\<rparr>)" for p
    by (rule trace_inv_cong [OF tr]) simp_all
  moreover have "trace_inv a (unhandledRejection x (w\<lparr>rights_pending := p\<rparr>))" for x p
    by (rule trace_inv_cong [OF tr]) (simp_all add: unhandledRejection_def)
  ultimately show ?thesis
    using tr SetMyDefaultAdministratorRightsDone by (simp split: settled.splits)
next
  case (BridgeUpdate nb)
  with tr show ?thesis
    by (auto intro: trace_inv_cong [OF tr] split: sum.splits)
next
  case (StageError err)
  with tr show ?thesis
    by (auto simp: handleError_def catch_handler_def intro: trace_inv_cong [OF tr]
        split: error_handler.splits)
next
  case (PollingStopped r)
  with tr show ?thesis
    by (auto intro: trace_inv_cong [OF tr])
qed


lemma trace_inv_step:
  "state_inv a w \<Longrightarrow> trace_inv a w \<Longrightarrow> trace_inv a (step a e w)"
  by (simp add: step_def trace_inv_turn)

lemma inv_run:
  "state_inv a w \<Longrightarrow> trace_inv a w \<Longrightarrow> state_inv a (run a es w) \<and> trace_inv a (run a es w)"
  by (induction es arbitrary: w) (simp_all add: state_inv_step trace_inv_step)

lemma inv_reachable:
  assumes "tgBot_arg a = new_Telegraf"
  shows "state_inv a (run a es (setup_fn a))" and "trace_inv a (run a es (setup_fn a))"
  using inv_run [OF state_inv_setup [OF assms] trace_inv_setup] by simp_all

section \<open>Consequences of the invariants\<close>

lemma StartPolling_notin_startup: "StartPolling \<notin> set (startup_trace a)"
  by (simp add: startup_trace_def)

lemma StartPolling_notin_identity: "StartPolling \<notin> set identity_trace"
  by (auto simp: identity_trace_def)

lemma GetUpdates_notin_identity: "GetUpdates f \<notin> set identity_trace"
  by (auto simp: identity_trace_def)

lemma Sleep_notin_identity: "Sleep n \<notin> set identity_trace"
  by (auto simp: identity_trace_def)

lemma Register_identity_trace: "Register r \<in> set identity_trace \<Longrightarrow> r \<in> set pipeline"
  by (auto simp: identity_trace_def)

lemma reg_handler_pipeline:
  "removeBridgesIgnoringCommands \<notin> set (map reg_handler pipeline)"
  by (simp add: pipeline_def)

lemma trace_inv_fulfilled:
  assumes "trace_inv a w" and "all_p w = Fulfilled m"
  obtains offs v where
    "trace w = (startup_trace a @ map (\<lambda>off. GetUpdates (getUpdates off)) offs @ identity_trace)
                 @ StartPolling # v"
    and "set v \<subseteq> {SetTimeout 5000, GetMyCommands}"
    and "\<not> telegram_skipOldMessages (settings_arg a) \<longrightarrow> offs = []"
  using assms by (auto simp: trace_inv_def)

lemma trace_inv_not_fulfilled:
  assumes "trace_inv a w" and "\<forall>m. all_p w \<noteq> Fulfilled m"
  obtains offs where
    "trace w = startup_trace a @ map (\<lambda>off. GetUpdates (getUpdates off)) offs"
    and "\<not> telegram_skipOldMessages (settings_arg a) \<longrightarrow> offs = []"
  using assms by (cases "all_p w") (auto simp: trace_inv_def)

lemma trace_inv_shape:
  assumes "trace_inv a w"
  obtains offs tail where
    "trace w = startup_trace a @ map (\<lambda>off. GetUpdates (getUpdates off)) offs @ tail"
    and "\<not> telegram_skipOldMessages (settings_arg a) \<longrightarrow> offs = []"
    and "tail = [] \<or> (\<exists>v. tail = identity_trace @ StartPolling # v \<and> set v \<subseteq> {SetTimeout 5000, GetMyCommands})"
proof -
  from assms obtain offs tail where
    a: "trace w = startup_trace a @ map (\<lambda>off. GetUpdates (getUpdates off)) offs @ tail"
    and b: "\<not> telegram_skipOldMessages (settings_arg a) \<longrightarrow> offs = []"
    and c: "case all_p w of
           Fulfilled m \<Rightarrow>
             (\<exists>v. tail = identity_trace @ StartPolling # v \<and> set v \<subseteq> {SetTimeout 5000, GetMyCommands})
         | _ \<Rightarrow> tail = []"
    unfolding trace_inv_def by (elim exE conjE)
  from c have "tail = [] \<or> (\<exists>v. tail = identity_trace @ StartPolling # v \<and> set v \<subseteq> {SetTimeout 5000, GetMyCommands})"
    by (cases "all_p w") simp_all
  with a b show ?thesis by (rule that)
qed

lemma state_inv_getMe_rejected:
  "state_inv a w \<Longrightarrow> getMe_p w = Rejected e \<Longrightarrow>
     (\<exists>e'. all_p w = Rejected e' \<and> ready w = Rejected e') \<and> idle w"
  by (cases "all_p w") (auto simp: state_inv_def promise_all_def split: promise.splits)

lemma state_inv_not_fulfilled_idle:
  "state_inv a w \<Longrightarrow> \<forall>m. all_p w \<noteq> Fulfilled m \<Longrightarrow> idle w"
  by (cases "all_p w") (auto simp: state_inv_def)

lemma state_inv_polling_alive:
  "state_inv a w \<Longrightarrow> polling (bot w) \<Longrightarrow> \<not> exited w"
  by (auto simp: state_inv_def)

lemma state_inv_polling_handler:
  "state_inv a w \<Longrightarrow> polling (bot w) \<Longrightarrow> errorHandler (bot w) = CatchHandler"
  by (cases "all_p w") (auto simp: state_inv_def idle_def installed_def new_Telegraf_def)

lemma state_inv_middleware:
  "state_inv a w \<Longrightarrow> middleware (bot w) = [] \<or> middleware (bot w) = pipeline"
  by (cases "all_p w") (auto simp: state_inv_def idle_def installed_def new_Telegraf_def)

lemma state_inv_polling_middleware:
  "state_inv a w \<Longrightarrow> polling (bot w) \<Longrightarrow> middleware (bot w) = pipeline"
  by (cases "all_p w") (auto simp: state_inv_def idle_def installed_def new_Telegraf_def)

section \<open>The log does not steer a run\<close>

lemma turn_appends_log:
  "turn a e (w\<lparr>log := l\<rparr>) =
     (turn a e w)\<lparr>log := l @ drop (length (log w)) (log (turn a e w))\<rparr>"
proof (cases e)
  case (GetMeDone r)
  then show ?thesis
    by (cases w)
       (simp add: settle_all_def startPolling_def on_identity_def split: promise.splits)
next
  case (GetUpdatesDone r)
  then show ?thesis
    by (cases w)
       (simp add: settle_all_def startPolling_def on_identity_def
          split: promise.splits option.splits settled.splits)
next
  case SleepDone
  then show ?thesis
    by (cases w)
       (simp add: settle_all_def startPolling_def on_identity_def split: promise.splits)
next
  case (SetMyCommandsDone r)
  then show ?thesis
    by (cases w) (simp add: unhandledRejection_def split: settled.splits)
next
  case TimeoutDone
  then show ?thesis
    by (cases w) simp
next
  case (GetMyCommandsDone r)
  then show ?thesis
    by (cases w) (simp add: unhandledRejection_def split: settled.splits)
next
  case (SetMyDefaultAdministratorRightsDone forChannels r)
  then show ?thesis
    by (cases w) (simp add: unhandledRejection_def split: settled.splits)
next
  case (BridgeUpdate nb)
  then show ?thesis
    by (cases w) (simp add: on_bridgeUpdate_def split: option.splits)
next
  case (StageError err)
  then show ?thesis
    by (cases w) (simp add: handleError_def catch_handler_def split: error_handler.splits)
next
  case (PollingStopped r)
  then show ?thesis
    by (cases w) simp
qed


lemma step_appends_log:
  "step a e (w\<lparr>log := l\<rparr>) =
     (step a e w)\<lparr>log := l @ drop (length (log w)) (log (step a e w))\<rparr>"
  by (simp add: step_def turn_appends_log)

lemma run_log:
  "\<exists>l'. run a es (w\<lparr>log := l\<rparr>) = (run a es w)\<lparr>log := l'\<rparr>"
proof (induction es arbitrary: w l)
  case Nil
  show ?case by (intro exI [of _ l]) simp
next
  case (Cons e es)
  show ?case
    using Cons.IH [where w = "step a e w"
        and l = "l @ drop (length (log w)) (log (step a e w))"]
    by (simp add: step_appends_log [where w = w and l = l])
qed

lemma run_append: "run a (es @ es') w = run a es' (run a es w)"
  by (induction es arbitrary: w) simp_all

section \<open>The draining of setup is clearOldMessages\<close>

text \<open>
  The fetch case of \<open>turn\<close> and the recursion \<open>clearOldMessages\<close> are the same
  function. In every run with the option set, whatever other events come in between,
  the fetches issued are those of \<open>clearOldMessages\<close> on the answers given so far,
  and the second task is its promise. Without the option the second task is the
  delay: pending until the timer fires, fulfilled from then on.
\<close>

lemma fetches_append: "fetches (xs @ ys) = fetches xs @ fetches ys"
  by (induction xs rule: fetches.induct) simp_all

lemma fetches_Register: "fetches (map Register rs) = []"
  by (induction rs) simp_all

lemma settle_all_second: 
  "drain (settle_all a w) = drain w \<and> sleeping (settle_all a w) = sleeping w
   \<and> second_p (settle_all a w) = second_p w
   \<and> fetches (trace (settle_all a w)) = fetches (trace w)"
  by (simp add: settle_all_def startPolling_def on_identity_def fetches_append fetches_Register
      split: promise.splits)

lemma turn_other_second:
  assumes "\<forall>r. e \<noteq> GetUpdatesDone r" and "e \<noteq> SleepDone \<or> \<not> sleeping w"
  shows "drain (turn a e w) = drain w \<and> sleeping (turn a e w) = sleeping w
   \<and> second_p (turn a e w) = second_p w
   \<and> fetches (trace (turn a e w)) = fetches (trace w)"
proof (cases e)
  case (GetMeDone r)
  then show ?thesis by (simp add: settle_all_second)
next
  case (GetUpdatesDone r)
  with assms show ?thesis by simp
next
  case SleepDone
  with assms show ?thesis by simp
next
  case (SetMyCommandsDone r)
  then show ?thesis
    by (simp add: unhandledRejection_def fetches_append split: settled.splits)
next
  case TimeoutDone
  then show ?thesis by (simp add: fetches_append)
next
  case (GetMyCommandsDone r)
  then show ?thesis
    by (simp add: unhandledRejection_def split: settled.splits)
next
  case (SetMyDefaultAdministratorRightsDone forChannels r)
  then show ?thesis
    by (simp add: unhandledRejection_def split: settled.splits)
next
  case (BridgeUpdate nb)
  then show ?thesis by (simp split: sum.splits)
next
  case (StageError err)
  then show ?thesis
    by (simp add: handleError_def catch_handler_def split: error_handler.splits)
next
  case (PollingStopped r)
  then show ?thesis by simp
qed

lemma step_other_second:
  assumes "\<forall>r. e \<noteq> GetUpdatesDone r" and "e \<noteq> SleepDone \<or> \<not> sleeping w"
  shows "drain (step a e w) = drain w \<and> sleeping (step a e w) = sleeping w
   \<and> second_p (step a e w) = second_p w
   \<and> fetches (trace (step a e w)) = fetches (trace w)"
  using turn_other_second [OF assms, of a] by (simp add: step_def)

lemma step_fetch_drained:
  "drain w = None \<Longrightarrow> step a (GetUpdatesDone r) w = w"
  by (simp add: step_def)

lemma answers_other: "\<forall>r. e \<noteq> GetUpdatesDone r \<Longrightarrow> answers (e # es) = answers es"
  by (cases e) simp_all

lemma run_after_draining:
  "drain w = None \<Longrightarrow> \<not> sleeping w \<Longrightarrow>
     fetches (trace (run a es w)) = fetches (trace w) \<and> second_p (run a es w) = second_p w
     \<and> drain (run a es w) = None"
proof (induction es arbitrary: w)
  case Nil
  then show ?case by simp
next
  case (Cons e es)
  show ?case
  proof (cases "\<exists>r. e = GetUpdatesDone r")
    case True
    then obtain r where "e = GetUpdatesDone r" ..
    with Cons show ?thesis by (simp add: step_fetch_drained)
  next
    case False
    then have o: "\<forall>r. e \<noteq> GetUpdatesDone r" by simp
    from Cons.prems(2) have "e \<noteq> SleepDone \<or> \<not> sleeping w" by simp
    note s = step_other_second [OF o this, of a]
    from s Cons.prems have "drain (step a e w) = None" "\<not> sleeping (step a e w)" by simp_all
    from Cons.IH [OF this] s show ?thesis by simp
  qed
qed

lemma state_inv_draining_alive:
  "state_inv a w \<Longrightarrow> drain w = Some offset \<Longrightarrow>
     \<not> exited w \<and> \<not> sleeping w \<and> second_p w = Pending"
  by (cases "all_p w") (auto simp: state_inv_def idle_def)

lemma run_draining:
  assumes "state_inv a w" and "drain w = Some offset"
  shows "fetches (trace (run a es w)) =
           fetches (trace w) @ tl (fst (clearOldMessages (answers es) offset))
       \<and> second_p (run a es w) = snd (clearOldMessages (answers es) offset)"
  using assms
proof (induction es arbitrary: w offset)
  case Nil
  with state_inv_draining_alive [OF Nil.prems] show ?case by simp
next
  case (Cons e es)
  note alive = state_inv_draining_alive [OF Cons.prems]
  have st': "state_inv a (step a e w)"
    by (rule state_inv_step [OF Cons.prems(1)])
  show ?case
  proof (cases "\<exists>r. e = GetUpdatesDone r")
    case False
    then have o: "\<forall>r. e \<noteq> GetUpdatesDone r" by simp
    from alive have ns: "e \<noteq> SleepDone \<or> \<not> sleeping w" by simp
    note s = step_other_second [OF o ns, of a]
    from s Cons.prems(2) have d: "drain (step a e w) = Some offset" by simp
    from Cons.IH [OF st' d] s answers_other [OF o, of es] show ?thesis by simp
  next
    case True
    then obtain r where e: "e = GetUpdatesDone r" ..
    show ?thesis
    proof (cases r)
      case (Rejects x)
      let ?w' = "step a e w"
      have d: "drain ?w' = None" and ns: "\<not> sleeping ?w'"
        and t: "fetches (trace ?w') = fetches (trace w)" and sp: "second_p ?w' = Rejected x"
        using Cons.prems(2) alive e Rejects
        by (simp_all add: step_def settle_all_second)
      from run_after_draining [OF d ns, of a es] t sp e Rejects show ?thesis by simp
    next
      case (Resolves batch)
      show ?thesis
      proof (cases "nextOffset batch")
        case None
        let ?w' = "step a e w"
        have d: "drain ?w' = None" and ns: "\<not> sleeping ?w'"
          and t: "fetches (trace ?w') = fetches (trace w)" and sp: "second_p ?w' = Fulfilled ()"
          using Cons.prems(2) alive e Resolves None
          by (simp_all add: step_def settle_all_second)
        from run_after_draining [OF d ns, of a es] t sp e Resolves None show ?thesis by simp
      next
        case (Some newOffset)
        let ?w' = "step a e w"
        have d: "drain ?w' = Some newOffset"
          and t: "fetches (trace ?w') = fetches (trace w) @ [getUpdates newOffset]"
          using Cons.prems(2) alive e Resolves Some
          by (simp_all add: step_def fetches_append)
        obtain fs where fs: "fst (clearOldMessages (answers es) newOffset) = getUpdates newOffset # fs"
          by (rule that [OF clearOldMessages_first_fetch])
        from Cons.IH [OF st' d] t fs e Resolves Some show ?thesis
          by (auto split: prod.splits)
      qed
    qed
  qed
qed

lemma setup_drains_by_clearOldMessages:
  assumes "tgBot_arg a = new_Telegraf" and "telegram_skipOldMessages (settings_arg a)"
  shows "fetches (trace (run a es (setup_fn a))) = fst (clearOldMessages_default (answers es))
       \<and> second_p (run a es (setup_fn a)) = snd (clearOldMessages_default (answers es))"
proof -
  have d: "drain (setup_fn a) = Some (- 1)"
    using assms(2) by (simp add: setup_fn_def)
  have t: "fetches (trace (setup_fn a)) = [getUpdates (- 1)]"
    using assms(2) by (simp add: setup_fn_def)
  obtain fs where fs: "fst (clearOldMessages (answers es) (- 1)) = getUpdates (- 1) # fs"
    by (rule that [OF clearOldMessages_first_fetch])
  from run_draining [OF state_inv_setup [OF assms(1)] d, of es] t fs show ?thesis
    by (simp add: clearOldMessages_default_def)
qed

lemma state_inv_sleeping_alive:
  "state_inv a w \<Longrightarrow> sleeping w \<Longrightarrow> \<not> exited w \<and> drain w = None \<and> second_p w = Pending"
  by (cases "all_p w") (auto simp: state_inv_def idle_def)

lemma slept_other: "e \<noteq> SleepDone \<Longrightarrow> slept (e # es) = slept es"
  by (cases e) simp_all

lemma run_sleeping:
  assumes "state_inv a w" and "sleeping w"
  shows "second_p (run a es w) = (if slept es then Fulfilled () else Pending)"
  using assms
proof (induction es arbitrary: w)
  case Nil
  with state_inv_sleeping_alive [OF Nil.prems] show ?case by simp
next
  case (Cons e es)
  note alive = state_inv_sleeping_alive [OF Cons.prems]
  have st': "state_inv a (step a e w)"
    by (rule state_inv_step [OF Cons.prems(1)])
  show ?case
  proof (cases "e = SleepDone")
    case True
    let ?w' = "step a e w"
    have d: "drain ?w' = None" and ns: "\<not> sleeping ?w'" and sp: "second_p ?w' = Fulfilled ()"
      using alive Cons.prems(2) True by (simp_all add: step_def settle_all_second)
    from run_after_draining [OF d ns, of a es] sp True show ?thesis by simp
  next
    case False
    show ?thesis
    proof (cases "\<exists>r. e = GetUpdatesDone r")
      case True
      then obtain r where e: "e = GetUpdatesDone r" ..
      with alive have "step a e w = w" by (simp add: step_fetch_drained)
      with Cons.IH [OF Cons.prems] e show ?thesis by simp
    next
      case False
      then have o: "\<forall>r. e \<noteq> GetUpdatesDone r" by simp
      from \<open>e \<noteq> SleepDone\<close> have "e \<noteq> SleepDone \<or> \<not> sleeping w" by simp
      note s = step_other_second [OF o this, of a]
      from s Cons.prems(2) have "sleeping (step a e w)" by simp
      from Cons.IH [OF st' this] slept_other [OF \<open>e \<noteq> SleepDone\<close>, of es] show ?thesis by simp
    qed
  qed
qed

lemma setup_sleeps:
  assumes "tgBot_arg a = new_Telegraf" and "\<not> telegram_skipOldMessages (settings_arg a)"
  shows "second_p (run a es (setup_fn a)) = (if slept es then Fulfilled () else Pending)"
proof -
  have "sleeping (setup_fn a)"
    using assms(2) by (simp add: setup_fn_def)
  from run_sleeping [OF state_inv_setup [OF assms(1)] this] show ?thesis .
qed

lemma on_bridgeUpdate_swaps:
  "context_TediCross tg = Some t \<Longrightarrow>
     on_bridgeUpdate newBridgeMap tg = Inr (tg\<lparr>context_TediCross := Some (t\<lparr>bridgeMap := newBridgeMap\<rparr>)\<rparr>)"
  by (simp add: on_bridgeUpdate_def)

lemma settle_all_getMe_p: "getMe_p (settle_all a w) = getMe_p w"
  by (simp add: settle_all_def startPolling_def on_identity_def split: promise.splits)

lemma turn_getMe_settled:
  "getMe_p w = Rejected x \<Longrightarrow> getMe_p (turn a e w) = Rejected x"
proof (cases e)
  case (BridgeUpdate nb)
  assume "getMe_p w = Rejected x"
  with BridgeUpdate show ?thesis
    by (simp add: on_bridgeUpdate_def split: option.splits)
next
  case (StageError err)
  assume "getMe_p w = Rejected x"
  with StageError show ?thesis
    by (simp add: handleError_def catch_handler_def split: error_handler.splits)
qed (simp_all add: settle_all_getMe_p unhandledRejection_def split: option.splits settled.splits)


lemma step_getMe_settled:
  "getMe_p w = Rejected x \<Longrightarrow> getMe_p (step a e w) = Rejected x"
  by (simp add: step_def turn_getMe_settled)

lemma run_getMe_settled:
  "getMe_p w = Rejected x \<Longrightarrow> getMe_p (run a es w) = Rejected x"
  by (induction es arbitrary: w) (simp_all add: step_getMe_settled)

section \<open>The claims\<close>

text \<open>
  C1. When the server answers the fetches with full batches (each of exactly
  \<open>limit = 100\<close> updates) and then with an empty batch, draining issues exactly
  (number of full batches + 1) fetches, every one with timeout 0, limit 100 and no
  update-type filter; the first fetch carries the starting offset, every later one
  the \<open>update_id\<close> of the last update of the previous batch plus 1; and the promise
  is fulfilled.
\<close>

theorem clearOldMessages_full_batches:
  assumes "\<forall>b \<in> set bs. length b = limit"
  shows "length (fst (clearOldMessages (map Resolves bs @ [Resolves []]) offset)) = length bs + 1
       \<and> fst (clearOldMessages (map Resolves bs @ [Resolves []]) offset) =
           map getUpdates (offset # map (\<lambda>b. update_id (last b) + 1) bs)
       \<and> (\<forall>i < length bs.
            fetch_offset (fst (clearOldMessages (map Resolves bs @ [Resolves []]) offset) ! Suc i) =
              update_id (last (bs ! i)) + 1)
       \<and> snd (clearOldMessages (map Resolves bs @ [Resolves []]) offset) = Fulfilled ()"
proof -
  from assms have ne: "\<forall>b \<in> set bs. b \<noteq> []"
    by (auto dest: limit_batch_nonempty)
  have eq: "clearOldMessages (map Resolves bs @ [Resolves []]) offset =
      (map getUpdates (offset # map (\<lambda>b. update_id (last b) + 1) bs), Fulfilled ())"
    by (rule clearOldMessages_drained [OF ne])
  show ?thesis
    unfolding eq by (simp add: getUpdates_def)
qed

theorem clearOldMessages_full_batches_witness:
  "length (map (\<lambda>i. \<lparr>update_id = i\<rparr>) [1..100]) = limit
   \<and> length (map (\<lambda>i. \<lparr>update_id = i\<rparr>) [101..200]) = limit
   \<and> fst (clearOldMessages
        (map Resolves [map (\<lambda>i. \<lparr>update_id = i\<rparr>) [1..100], map (\<lambda>i. \<lparr>update_id = i\<rparr>) [101..200]]
           @ [Resolves []]) (- 1))
       = [getUpdates (- 1), getUpdates 101, getUpdates 201]
   \<and> snd (clearOldMessages
        (map Resolves [map (\<lambda>i. \<lparr>update_id = i\<rparr>) [1..100], map (\<lambda>i. \<lparr>update_id = i\<rparr>) [101..200]]
           @ [Resolves []]) (- 1))
       = Fulfilled ()"
proof -
  have h: "\<forall>b \<in> set [map (\<lambda>i. \<lparr>update_id = i\<rparr>) [1..100], map (\<lambda>i. \<lparr>update_id = i\<rparr>) [101..200]].
       length b = limit"
    by (simp add: limit_def)
  have l1: "last (map (\<lambda>i. \<lparr>update_id = i\<rparr>) [1..100]) = \<lparr>update_id = 100\<rparr>"
    by code_simp
  have l2: "last (map (\<lambda>i. \<lparr>update_id = i\<rparr>) [101..200]) = \<lparr>update_id = 200\<rparr>"
    by code_simp
  show ?thesis
    using h clearOldMessages_full_batches [OF h, of "- 1"] l1 l2
    by simp
qed

text \<open>
  C2. Evaluation at the failing input: the startup has completed, polling runs, and the
  re-fetch of the command check returns one command. The callback of lines 115-120
  logs the commands and throws; the throw rejects a promise that has no handler, and
  the process ends: polling stops, and no later event is taken. With the two
  registered commands returned, the check logs them and the run goes on.
\<close>

theorem verification_mismatch_ends_process:
  "unhandled (run (example_args False)
      [GetMeDone (Resolves example_user), SleepDone, SetMyCommandsDone (Resolves True), TimeoutDone]
      (setup_fn (example_args False))) = []
   \<and> unhandled (run (example_args False)
      [GetMeDone (Resolves example_user), SleepDone, SetMyCommandsDone (Resolves True), TimeoutDone,
       GetMyCommandsDone (Resolves [\<lparr>command = ''chatinfo'', description = ''Get info about the chat''\<rparr>])]
      (setup_fn (example_args False)))
     = [Error ''Telegram: Expected 2 commands, got 1'']
   \<and> polling (bot (run (example_args False)
      [GetMeDone (Resolves example_user), SleepDone, SetMyCommandsDone (Resolves True), TimeoutDone]
      (setup_fn (example_args False))))
   \<and> \<not> polling (bot (run (example_args False)
      [GetMeDone (Resolves example_user), SleepDone, SetMyCommandsDone (Resolves True), TimeoutDone,
       GetMyCommandsDone (Resolves [\<lparr>command = ''chatinfo'', description = ''Get info about the chat''\<rparr>])]
      (setup_fn (example_args False))))
   \<and> exited (run (example_args False)
      [GetMeDone (Resolves example_user), SleepDone, SetMyCommandsDone (Resolves True), TimeoutDone,
       GetMyCommandsDone (Resolves [\<lparr>command = ''chatinfo'', description = ''Get info about the chat''\<rparr>])]
      (setup_fn (example_args False)))
   \<and> log (run (example_args False)
      [GetMeDone (Resolves example_user), SleepDone, SetMyCommandsDone (Resolves True), TimeoutDone,
       GetMyCommandsDone (Resolves [\<lparr>command = ''chatinfo'', description = ''Get info about the chat''\<rparr>]),
       StageError (Failure ''ECONNRESET'')]
      (setup_fn (example_args False)))
     = [Info ''Telegram: tedi_bot (4242)'',
        InfoCommands ''Telegram commands:''
          [\<lparr>command = ''chatinfo'', description = ''Get info about the chat''\<rparr>]]
   \<and> unhandled (run (example_args False)
      [GetMeDone (Resolves example_user), SleepDone, SetMyCommandsDone (Resolves True), TimeoutDone,
       GetMyCommandsDone (Resolves myCommands)]
      (setup_fn (example_args False))) = []
   \<and> polling (bot (run (example_args False)
      [GetMeDone (Resolves example_user), SleepDone, SetMyCommandsDone (Resolves True), TimeoutDone,
       GetMyCommandsDone (Resolves myCommands)]
      (setup_fn (example_args False))))"
  by (simp add: eval_defs toString.simps digit_def myCommands_def)

text \<open>
  C3, as stated, fails: after a complete startup polling runs, the direction filter
  \<open>removeD2TBridges\<close> is registered, and no registered handler is
  \<open>removeBridgesIgnoringCommands\<close>.
\<close>

theorem command_filter_counterexample:
  "polling (bot (run (example_args False) [GetMeDone (Resolves example_user), SleepDone]
      (setup_fn (example_args False))))
   \<and> Use removeD2TBridges \<in> set (middleware (bot (run (example_args False)
      [GetMeDone (Resolves example_user), SleepDone] (setup_fn (example_args False)))))
   \<and> removeBridgesIgnoringCommands \<notin> set (map reg_handler (middleware (bot (run (example_args False)
      [GetMeDone (Resolves example_user), SleepDone] (setup_fn (example_args False))))))"
  by (simp add: eval_defs pipeline_def)

text \<open>
  C3 (amended). No run registers the per-command filter
  \<open>removeBridgesIgnoringCommands\<close> (its line is a comment in the source). When
  polling runs, the dispatcher holds exactly the registrations of lines 173-198 in
  order: directly after \<open>removeD2TBridges\<close> come the filters for join and leave
  messages, the membership handlers, and then content enrichment.
\<close>

theorem pipeline_has_no_command_filter:
  assumes fresh: "tgBot_arg a = new_Telegraf"
  shows "removeBridgesIgnoringCommands \<notin> set (map reg_handler (middleware (bot (run a es (setup_fn a)))))
       \<and> (\<forall>r. Register r \<in> set (trace (run a es (setup_fn a))) \<longrightarrow>
              reg_handler r \<noteq> removeBridgesIgnoringCommands)
       \<and> (polling (bot (run a es (setup_fn a))) \<longrightarrow>
            middleware (bot (run a es (setup_fn a))) =
              [Command ''chatinfo'' chatinfo,
               Command ''threadinfo'' threadinfo,
               Use channelChatInfo,
               Use addTediCrossObj,
               Use addMessageObj,
               Use addMessageId,
               Use addBridgesToContext,
               Use informThisIsPrivateBot,
               Use removeD2TBridges,
               On [''new_chat_members''] removeBridgesIgnoringJoinMessages,
               On [''left_chat_member''] removeBridgesIgnoringLeaveMessages,
               On [''new_chat_members''] newChatMembers,
               On [''left_chat_member''] leftChatMember,
               Use addFromObj,
               Use addReplyObj,
               Use addForwardFrom,
               Use addTextObj,
               Use addFileObj,
               Use addFileLink,
               Use addPreparedObj,
               On [''edited_message'', ''edited_channel_post''] handleEdits,
               Use relayMessage])"
proof -
  let ?w = "run a es (setup_fn a)"
  note st = inv_reachable(1) [OF fresh, of es] and ti = inv_reachable(2) [OF fresh, of es]
  have m: "removeBridgesIgnoringCommands \<notin> set (map reg_handler (middleware (bot ?w)))"
    using state_inv_middleware [OF st] reg_handler_pipeline by auto
  obtain offs tail where
    tr: "trace ?w = startup_trace a @ map (\<lambda>off. GetUpdates (getUpdates off)) offs @ tail"
    and sk: "\<not> telegram_skipOldMessages (settings_arg a) \<longrightarrow> offs = []"
    and tl: "tail = [] \<or> (\<exists>v. tail = identity_trace @ StartPolling # v \<and> set v \<subseteq> {SetTimeout 5000, GetMyCommands})"
    by (rule trace_inv_shape [OF ti])
  have r: "reg_handler r \<noteq> removeBridgesIgnoringCommands" if "Register r \<in> set (trace ?w)" for r
  proof -
    from that tr have "Register r \<in> set tail"
      by (auto simp: startup_trace_def)
    with tl have "Register r \<in> set identity_trace" by auto
    then have "r \<in> set pipeline" by (rule Register_identity_trace)
    then have "reg_handler r \<in> set (map reg_handler pipeline)" by simp
    with reg_handler_pipeline show ?thesis by metis
  qed
  have p: "polling (bot ?w) \<longrightarrow> middleware (bot ?w) = pipeline"
    using state_inv_polling_middleware [OF st] by blast
  from m r p show ?thesis
    unfolding pipeline_def by blast
qed

theorem pipeline_has_no_command_filter_witness:
  "tgBot_arg (example_args True) = new_Telegraf
   \<and> polling (bot (run (example_args True) [GetUpdatesDone (Resolves []), GetMeDone (Resolves example_user)]
        (setup_fn (example_args True))))
   \<and> Register (Use removeD2TBridges) \<in> set (trace (run (example_args True)
        [GetUpdatesDone (Resolves []), GetMeDone (Resolves example_user)] (setup_fn (example_args True))))
   \<and> reg_handler (Use removeD2TBridges) \<noteq> removeBridgesIgnoringCommands
   \<and> take 2 (drop 8 (middleware (bot (run (example_args True)
        [GetUpdatesDone (Resolves []), GetMeDone (Resolves example_user)] (setup_fn (example_args True))))))
      = [Use removeD2TBridges, On [''new_chat_members''] removeBridgesIgnoringJoinMessages]"
proof -
  have f: "tgBot_arg (example_args True) = new_Telegraf"
    by (simp add: example_args_def)
  have p: "polling (bot (run (example_args True) [GetUpdatesDone (Resolves []), GetMeDone (Resolves example_user)]
        (setup_fn (example_args True))))"
    by (simp add: eval_defs)
  have g: "Register (Use removeD2TBridges) \<in> set (trace (run (example_args True)
        [GetUpdatesDone (Resolves []), GetMeDone (Resolves example_user)] (setup_fn (example_args True))))"
    by (simp add: eval_defs pipeline_def)
  note th = pipeline_has_no_command_filter [OF f,
      of "[GetUpdatesDone (Resolves []), GetMeDone (Resolves example_user)]"]
  from th g have h: "reg_handler (Use removeD2TBridges) \<noteq> removeBridgesIgnoringCommands"
    by blast
  from th p have "middleware (bot (run (example_args True)
        [GetUpdatesDone (Resolves []), GetMeDone (Resolves example_user)] (setup_fn (example_args True))))
      = [Command ''chatinfo'' chatinfo,
               Command ''threadinfo'' threadinfo,
               Use channelChatInfo,
               Use addTediCrossObj,
               Use addMessageObj,
               Use addMessageId,
               Use addBridgesToContext,
               Use informThisIsPrivateBot,
               Use removeD2TBridges,
               On [''new_chat_members''] removeBridgesIgnoringJoinMessages,
               On [''left_chat_member''] removeBridgesIgnoringLeaveMessages,
               On [''new_chat_members''] newChatMembers,
               On [''left_chat_member''] leftChatMember,
               Use addFromObj,
               Use addReplyObj,
               Use addForwardFrom,
               Use addTextObj,
               Use addFileObj,
               Use addFileLink,
               Use addPreparedObj,
               On [''edited_message'', ''edited_channel_post''] handleEdits,
               Use relayMessage]"
    by blast
  then have t: "take 2 (drop 8 (middleware (bot (run (example_args True)
        [GetUpdatesDone (Resolves []), GetMeDone (Resolves example_user)] (setup_fn (example_args True))))))
      = [Use removeD2TBridges, On [''new_chat_members''] removeBridgesIgnoringJoinMessages]"
    by (simp del: run.simps)
  from f p g h t show ?thesis by blast
qed

text \<open>
  C4. Polling starts only after startup step 1 and the installation. Whenever the
  actions of a run contain \<open>StartPolling\<close>, split as \<open>pre @ StartPolling # post\<close>:
  \<^verbatim>\<open>getMe\<close> is fulfilled; the second task (draining or delay) is fulfilled, with no
  fetch outstanding and no delay pending; the dispatcher holds the whole pipeline and
  the error handler; \<open>pre\<close> ends with the registrations of the pipeline followed by
  the setting of the error handler and contains no \<open>StartPolling\<close>; and \<open>post\<close>
  holds only the timer and the re-fetch of the command check, so no fetch of the
  draining and no registration comes after the polling call.
\<close>

theorem polling_after_startup:
  assumes fresh: "tgBot_arg a = new_Telegraf"
    and tr: "trace (run a es (setup_fn a)) = pre @ StartPolling # post"
  shows "(\<exists>m. getMe_p (run a es (setup_fn a)) = Fulfilled m)
       \<and> second_p (run a es (setup_fn a)) = Fulfilled ()
       \<and> drain (run a es (setup_fn a)) = None
       \<and> \<not> sleeping (run a es (setup_fn a))
       \<and> middleware (bot (run a es (setup_fn a))) = pipeline
       \<and> errorHandler (bot (run a es (setup_fn a))) = CatchHandler
       \<and> (\<exists>before. pre = before @ map Register pipeline @ [Catch])
       \<and> StartPolling \<notin> set pre
       \<and> set post \<subseteq> {SetTimeout 5000, GetMyCommands}"
proof -
  let ?w = "run a es (setup_fn a)"
  note st = inv_reachable(1) [OF fresh, of es] and ti = inv_reachable(2) [OF fresh, of es]
  have "\<exists>m. all_p ?w = Fulfilled m"
  proof (rule ccontr)
    assume "\<not> (\<exists>m. all_p ?w = Fulfilled m)"
    then have "\<forall>m. all_p ?w \<noteq> Fulfilled m" by simp
    then obtain offs where
      "trace ?w = startup_trace a @ map (\<lambda>off. GetUpdates (getUpdates off)) offs"
      and "\<not> telegram_skipOldMessages (settings_arg a) \<longrightarrow> offs = []"
      by (rule trace_inv_not_fulfilled [OF ti])
    then have "StartPolling \<notin> set (trace ?w)"
      by (auto simp: startup_trace_def)
    with tr show False by simp
  qed
  then obtain m where m: "all_p ?w = Fulfilled m" ..
  obtain offs v where
    t: "trace ?w = (startup_trace a @ map (\<lambda>off. GetUpdates (getUpdates off)) offs @ identity_trace)
                 @ StartPolling # v"
    and v: "set v \<subseteq> {SetTimeout 5000, GetMyCommands}"
    and sk: "\<not> telegram_skipOldMessages (settings_arg a) \<longrightarrow> offs = []"
    by (rule trace_inv_fulfilled [OF ti m])
  let ?p = "startup_trace a @ map (\<lambda>off. GetUpdates (getUpdates off)) offs @ identity_trace"
  have np: "StartPolling \<notin> set ?p"
    using StartPolling_notin_startup [of a] StartPolling_notin_identity by auto
  have nv: "StartPolling \<notin> set v" using v by auto
  from t tr have "?p @ StartPolling # v = pre @ StartPolling # post" by simp
  then have eq: "?p = pre \<and> v = post"
    by (simp only: append_Cons_eq_iff [OF np nv])
  have "pre = (startup_trace a @ map (\<lambda>off. GetUpdates (getUpdates off)) offs @
      [SetMyCommands myCommands ''default'',
       SetMyDefaultAdministratorRights defaultPermissions False,
       SetMyDefaultAdministratorRights defaultPermissions True]) @ map Register pipeline @ [Catch]"
    using eq by (simp add: identity_trace_def)
  then have pre: "\<exists>before. pre = before @ map Register pipeline @ [Catch]" ..
  have np': "StartPolling \<notin> set pre" using np eq by simp
  have v': "set post \<subseteq> {SetTimeout 5000, GetMyCommands}" using v eq by simp
  from st m have "getMe_p ?w = Fulfilled m" "second_p ?w = Fulfilled ()"
    "drain ?w = None" "\<not> sleeping ?w" "middleware (bot ?w) = pipeline"
    "errorHandler (bot ?w) = CatchHandler"
    by (auto simp: state_inv_def installed_def)
  with pre np' v' show ?thesis by blast
qed

theorem polling_after_startup_witness:
  "tgBot_arg (example_args True) = new_Telegraf
   \<and> trace (run (example_args True)
        [GetUpdatesDone (Resolves [\<lparr>update_id = 5\<rparr>]), GetMeDone (Resolves example_user),
         GetUpdatesDone (Resolves []), SetMyCommandsDone (Resolves True)]
        (setup_fn (example_args True)))
      = ([SettingsOn ''bridgeUpdate'', GetMe, GetUpdates (getUpdates (- 1)), GetUpdates (getUpdates 6),
          SetMyCommands myCommands ''default'',
          SetMyDefaultAdministratorRights defaultPermissions False,
          SetMyDefaultAdministratorRights defaultPermissions True] @ map Register pipeline @ [Catch])
        @ StartPolling # [SetTimeout 5000]
   \<and> second_p (run (example_args True)
        [GetUpdatesDone (Resolves [\<lparr>update_id = 5\<rparr>]), GetMeDone (Resolves example_user),
         GetUpdatesDone (Resolves []), SetMyCommandsDone (Resolves True)]
        (setup_fn (example_args True))) = Fulfilled ()
   \<and> middleware (bot (run (example_args True)
        [GetUpdatesDone (Resolves [\<lparr>update_id = 5\<rparr>]), GetMeDone (Resolves example_user),
         GetUpdatesDone (Resolves []), SetMyCommandsDone (Resolves True)]
        (setup_fn (example_args True)))) = pipeline"
proof -
  have f: "tgBot_arg (example_args True) = new_Telegraf"
    by (simp add: example_args_def)
  have t: "trace (run (example_args True)
        [GetUpdatesDone (Resolves [\<lparr>update_id = 5\<rparr>]), GetMeDone (Resolves example_user),
         GetUpdatesDone (Resolves []), SetMyCommandsDone (Resolves True)]
        (setup_fn (example_args True)))
      = ([SettingsOn ''bridgeUpdate'', GetMe, GetUpdates (getUpdates (- 1)), GetUpdates (getUpdates 6),
          SetMyCommands myCommands ''default'',
          SetMyDefaultAdministratorRights defaultPermissions False,
          SetMyDefaultAdministratorRights defaultPermissions True] @ map Register pipeline @ [Catch])
        @ StartPolling # [SetTimeout 5000]"
    by (simp add: eval_defs)
  show ?thesis
    using f t polling_after_startup [OF f t] by simp
qed

text \<open>
  C5. Once \<^verbatim>\<open>getMe\<close> is rejected, whatever events follow: \<^verbatim>\<open>tgBot.ready\<close> is
  rejected (so it is never fulfilled), no commands and no administrator rights are
  requested, no handler is registered, the context is not assigned, and polling is
  not started.
\<close>

theorem identity_failure_is_fatal:
  assumes fresh: "tgBot_arg a = new_Telegraf"
    and rej: "getMe_p (run a es (setup_fn a)) = Rejected e"
  shows "(\<exists>e'. ready (run a (es @ es') (setup_fn a)) = Rejected e')
       \<and> (\<forall>cs scope. SetMyCommands cs scope \<notin> set (trace (run a (es @ es') (setup_fn a))))
       \<and> (\<forall>rs forChannels.
             SetMyDefaultAdministratorRights rs forChannels
               \<notin> set (trace (run a (es @ es') (setup_fn a))))
       \<and> (\<forall>r. Register r \<notin> set (trace (run a (es @ es') (setup_fn a))))
       \<and> middleware (bot (run a (es @ es') (setup_fn a))) = []
       \<and> context_TediCross (bot (run a (es @ es') (setup_fn a))) = None
       \<and> StartPolling \<notin> set (trace (run a (es @ es') (setup_fn a)))
       \<and> \<not> polling (bot (run a (es @ es') (setup_fn a)))"
proof -
  let ?w = "run a (es @ es') (setup_fn a)"
  note st = inv_reachable(1) [OF fresh, of "es @ es'"]
    and ti = inv_reachable(2) [OF fresh, of "es @ es'"]
  have rej': "getMe_p ?w = Rejected e"
    using run_getMe_settled [OF rej, of a es'] by (simp add: run_append)
  from state_inv_getMe_rejected [OF st rej'] obtain e' where
    all: "all_p ?w = Rejected e'" and rd: "ready ?w = Rejected e'" and idle: "idle ?w"
    by blast
  from all have nf: "\<forall>m. all_p ?w \<noteq> Fulfilled m" by simp
  obtain offs where
    tr: "trace ?w = startup_trace a @ map (\<lambda>off. GetUpdates (getUpdates off)) offs"
    and "\<not> telegram_skipOldMessages (settings_arg a) \<longrightarrow> offs = []"
    by (rule trace_inv_not_fulfilled [OF ti nf])
  have t1: "\<forall>cs scope. SetMyCommands cs scope \<notin> set (trace ?w)"
    unfolding tr by (auto simp: startup_trace_def)
  have t2: "\<forall>rs forChannels. SetMyDefaultAdministratorRights rs forChannels \<notin> set (trace ?w)"
    unfolding tr by (auto simp: startup_trace_def)
  have t3: "\<forall>r. Register r \<notin> set (trace ?w)"
    unfolding tr by (auto simp: startup_trace_def)
  have t4: "StartPolling \<notin> set (trace ?w)"
    unfolding tr by (auto simp: startup_trace_def)
  from idle have b: "middleware (bot ?w) = []" "context_TediCross (bot ?w) = None"
    "\<not> polling (bot ?w)"
    by (simp_all add: idle_def new_Telegraf_def)
  from rd t1 t2 t3 t4 b show ?thesis by blast
qed

theorem identity_failure_is_fatal_witness:
  "tgBot_arg (example_args True) = new_Telegraf
   \<and> getMe_p (run (example_args True)
        [GetUpdatesDone (Resolves [\<lparr>update_id = 5\<rparr>]), GetMeDone (Rejects (Failure ''401 Unauthorized''))]
        (setup_fn (example_args True))) = Rejected (Failure ''401 Unauthorized'')
   \<and> middleware (bot (run (example_args True)
        ([GetUpdatesDone (Resolves [\<lparr>update_id = 5\<rparr>]), GetMeDone (Rejects (Failure ''401 Unauthorized''))]
         @ [GetUpdatesDone (Resolves []), SetMyCommandsDone (Resolves True), GetMeDone (Resolves example_user)])
        (setup_fn (example_args True)))) = []
   \<and> StartPolling \<notin> set (trace (run (example_args True)
        ([GetUpdatesDone (Resolves [\<lparr>update_id = 5\<rparr>]), GetMeDone (Rejects (Failure ''401 Unauthorized''))]
         @ [GetUpdatesDone (Resolves []), SetMyCommandsDone (Resolves True), GetMeDone (Resolves example_user)])
        (setup_fn (example_args True))))
   \<and> ready (run (example_args True)
        ([GetUpdatesDone (Resolves [\<lparr>update_id = 5\<rparr>]), GetMeDone (Rejects (Failure ''401 Unauthorized''))]
         @ [GetUpdatesDone (Resolves []), SetMyCommandsDone (Resolves True), GetMeDone (Resolves example_user)])
        (setup_fn (example_args True))) = Rejected (Failure ''401 Unauthorized'')"
proof -
  have f: "tgBot_arg (example_args True) = new_Telegraf"
    by (simp add: example_args_def)
  have r: "getMe_p (run (example_args True)
        [GetUpdatesDone (Resolves [\<lparr>update_id = 5\<rparr>]), GetMeDone (Rejects (Failure ''401 Unauthorized''))]
        (setup_fn (example_args True))) = Rejected (Failure ''401 Unauthorized'')"
    by (simp add: eval_defs)
  have rd: "ready (run (example_args True)
        ([GetUpdatesDone (Resolves [\<lparr>update_id = 5\<rparr>]), GetMeDone (Rejects (Failure ''401 Unauthorized''))]
         @ [GetUpdatesDone (Resolves []), SetMyCommandsDone (Resolves True), GetMeDone (Resolves example_user)])
        (setup_fn (example_args True))) = Rejected (Failure ''401 Unauthorized'')"
    by (simp add: eval_defs)
  show ?thesis
    using f r rd identity_failure_is_fatal [OF f r,
      of "[GetUpdatesDone (Resolves []), SetMyCommandsDone (Resolves True), GetMeDone (Resolves example_user)]"]
    by blast
qed

text \<open>
  C6. Evaluation at the failing input: a \<^verbatim>\<open>bridgeUpdate\<close> emitted before the
  identity is known throws a TypeError out of the listener, and the context assigned
  later holds the bridge map given to setup (10), not the new one (11). The same
  notification after startup replaces the map by one assignment.
\<close>

theorem bridgeUpdate_before_identity_is_lost:
  "thrown (run (example_args False)
      [BridgeUpdate 11, GetMeDone (Resolves example_user), SleepDone]
      (setup_fn (example_args False)))
     = [TypeError ''Cannot set properties of undefined (setting bridgeMap)'']
   \<and> map_option bridgeMap (context_TediCross (bot (run (example_args False)
      [BridgeUpdate 11, GetMeDone (Resolves example_user), SleepDone]
      (setup_fn (example_args False))))) = Some 10
   \<and> map_option bridgeMap (context_TediCross (bot (run (example_args False)
      [GetMeDone (Resolves example_user), SleepDone, BridgeUpdate 11]
      (setup_fn (example_args False))))) = Some 11"
  by (simp add: eval_defs)

text \<open>
  C7. When polling runs, the error handler of the bot is the one set by
  \<^verbatim>\<open>tgBot.catch\<close>. An error raised by a stage is appended to the log and changes
  nothing else: polling goes on, \<^verbatim>\<open>tgBot.ready\<close> is not settled by it, and the
  events that follow are processed as they would have been without the error (the
  two runs differ at most in the log).
\<close>

theorem stage_error_is_logged:
  assumes fresh: "tgBot_arg a = new_Telegraf"
    and pol: "polling (bot (run a es (setup_fn a)))"
  shows "errorHandler (bot (run a es (setup_fn a))) = CatchHandler
       \<and> step a (StageError err) (run a es (setup_fn a)) =
           (run a es (setup_fn a))\<lparr>log := log (run a es (setup_fn a)) @ [ErrorEntry err]\<rparr>
       \<and> polling (bot (step a (StageError err) (run a es (setup_fn a))))
       \<and> ready (step a (StageError err) (run a es (setup_fn a))) = ready (run a es (setup_fn a))
       \<and> (\<exists>l. run a (es @ StageError err # es') (setup_fn a) =
                 (run a (es @ es') (setup_fn a))\<lparr>log := l\<rparr>)"
proof -
  let ?w = "run a es (setup_fn a)"
  note st = inv_reachable(1) [OF fresh, of es]
  have h: "errorHandler (bot ?w) = CatchHandler"
    by (rule state_inv_polling_handler [OF st pol])
  have x: "\<not> exited ?w"
    by (rule state_inv_polling_alive [OF st pol])
  have s: "step a (StageError err) ?w = ?w\<lparr>log := log ?w @ [ErrorEntry err]\<rparr>"
    using pol h x by (simp add: step_def handleError_def catch_handler_def)
  have p: "polling (bot (step a (StageError err) ?w))"
    unfolding s using pol by simp
  have r: "ready (step a (StageError err) ?w) = ready ?w"
    unfolding s by simp
  from run_log [where a = a and es = es' and w = ?w and l = "log ?w @ [ErrorEntry err]"]
  obtain l where "run a es' (?w\<lparr>log := log ?w @ [ErrorEntry err]\<rparr>) = (run a es' ?w)\<lparr>log := l\<rparr>"
    by (elim exE)
  then have "run a (es @ StageError err # es') (setup_fn a) = (run a (es @ es') (setup_fn a))\<lparr>log := l\<rparr>"
    by (simp only: run_append run.simps s)
  then have e: "\<exists>l. run a (es @ StageError err # es') (setup_fn a) =
                 (run a (es @ es') (setup_fn a))\<lparr>log := l\<rparr>" ..
  from h s p r e show ?thesis by blast
qed

theorem stage_error_is_logged_witness:
  "tgBot_arg (example_args False) = new_Telegraf
   \<and> polling (bot (run (example_args False) [SleepDone, GetMeDone (Resolves example_user)]
        (setup_fn (example_args False))))
   \<and> log (step (example_args False) (StageError (Failure ''ECONNRESET''))
        (run (example_args False) [SleepDone, GetMeDone (Resolves example_user)]
           (setup_fn (example_args False))))
      = [Info ''Telegram: tedi_bot (4242)'', ErrorEntry (Failure ''ECONNRESET'')]
   \<and> polling (bot (step (example_args False) (StageError (Failure ''ECONNRESET''))
        (run (example_args False) [SleepDone, GetMeDone (Resolves example_user)]
           (setup_fn (example_args False)))))"
proof -
  have f: "tgBot_arg (example_args False) = new_Telegraf"
    by (simp add: example_args_def)
  have p: "polling (bot (run (example_args False) [SleepDone, GetMeDone (Resolves example_user)]
        (setup_fn (example_args False))))"
    by (simp add: eval_defs)
  have n: "toString 4242 = ''4242''"
    by (simp add: toString.simps digit_def)
  have l: "log (run (example_args False) [SleepDone, GetMeDone (Resolves example_user)]
        (setup_fn (example_args False))) = [Info ''Telegram: tedi_bot (4242)'']"
    by (simp add: eval_defs n)
  note th = stage_error_is_logged [OF f p, of "Failure ''ECONNRESET''" "[]"]
  from th have s: "step (example_args False) (StageError (Failure ''ECONNRESET''))
        (run (example_args False) [SleepDone, GetMeDone (Resolves example_user)]
           (setup_fn (example_args False)))
      = (run (example_args False) [SleepDone, GetMeDone (Resolves example_user)]
           (setup_fn (example_args False)))
        \<lparr>log := log (run (example_args False) [SleepDone, GetMeDone (Resolves example_user)]
           (setup_fn (example_args False))) @ [ErrorEntry (Failure ''ECONNRESET'')]\<rparr>"
    and q: "polling (bot (step (example_args False) (StageError (Failure ''ECONNRESET''))
        (run (example_args False) [SleepDone, GetMeDone (Resolves example_user)]
           (setup_fn (example_args False)))))"
    by blast+
  have "log (step (example_args False) (StageError (Failure ''ECONNRESET''))
        (run (example_args False) [SleepDone, GetMeDone (Resolves example_user)]
           (setup_fn (example_args False))))
      = [Info ''Telegram: tedi_bot (4242)'', ErrorEntry (Failure ''ECONNRESET'')]"
    by (simp add: s l del: run.simps)
  with f p q show ?thesis by blast
qed

text \<open>
  C8. Draining stops exactly at the first empty batch. When the answers are non-empty
  batches followed by an empty one, the function issues one fetch per non-empty batch
  and one more, is fulfilled, and never looks at the answers after the empty batch.
  When only non-empty batches have been answered, one more fetch is outstanding after
  every one of them and the promise is still pending. A fulfilled promise implies an
  empty batch among the answers.
\<close>

theorem clearOldMessages_stops_at_first_empty:
  assumes "\<forall>b \<in> set pre. b \<noteq> []"
  shows "clearOldMessages (map Resolves pre @ Resolves [] # rest) offset =
           (map getUpdates (offset # map (\<lambda>b. update_id (last b) + 1) pre), Fulfilled ())
       \<and> length (fst (clearOldMessages (map Resolves pre @ Resolves [] # rest) offset)) = length pre + 1
       \<and> clearOldMessages (map Resolves pre) offset =
           (map getUpdates (offset # map (\<lambda>b. update_id (last b) + 1) pre), Pending)
       \<and> length (fst (clearOldMessages (map Resolves pre) offset)) = length pre + 1
       \<and> (snd (clearOldMessages rs offset) = Fulfilled () \<longrightarrow> Resolves [] \<in> set rs)"
  using clearOldMessages_drained [OF assms, of rest offset]
    clearOldMessages_still_pending [OF assms, of offset]
    clearOldMessages_fulfilled_has_empty [of rs offset]
  by simp

theorem clearOldMessages_stops_at_first_empty_witness:
  "[\<lparr>update_id = 7\<rparr>] \<noteq> [] \<and> [\<lparr>update_id = 8\<rparr>, \<lparr>update_id = 9\<rparr>] \<noteq> []
   \<and> clearOldMessages
        (map Resolves [[\<lparr>update_id = 7\<rparr>], [\<lparr>update_id = 8\<rparr>, \<lparr>update_id = 9\<rparr>]]
           @ Resolves [] # [Resolves [\<lparr>update_id = 10\<rparr>], Rejects (Failure ''ETIMEDOUT'')]) (- 1)
       = ([getUpdates (- 1), getUpdates 8, getUpdates 10], Fulfilled ())
   \<and> clearOldMessages
        (map Resolves [[\<lparr>update_id = 7\<rparr>], [\<lparr>update_id = 8\<rparr>, \<lparr>update_id = 9\<rparr>]]) (- 1)
       = ([getUpdates (- 1), getUpdates 8, getUpdates 10], Pending)
   \<and> snd (clearOldMessages [Resolves []] (- 1)) = Fulfilled ()
   \<and> Resolves [] \<in> set [Resolves ([] :: update list)]"
proof -
  have h: "\<forall>b \<in> set [[\<lparr>update_id = 7\<rparr>], [\<lparr>update_id = 8\<rparr>, \<lparr>update_id = 9\<rparr>]]. b \<noteq> []"
    by simp
  show ?thesis
    using h clearOldMessages_stops_at_first_empty [OF h,
        of "[Resolves [\<lparr>update_id = 10\<rparr>], Rejects (Failure ''ETIMEDOUT'')]" "- 1" "[Resolves []]"]
    by (simp add: nextOffset_empty)
qed

text \<open>
  C9. The synchronous part of setup calls \<^verbatim>\<open>getMe\<close> and then starts the second
  task, and both promises are pending together. The second task is the first fetch of
  \<^verbatim>\<open>clearOldMessages\<close> (offset -1) when \<^verbatim>\<open>skipOldMessages\<close> is set, and
  \<^verbatim>\<open>sleep(1000)\<close> otherwise. With the option set no run starts a sleep; without it
  no run issues a fetch. The two completions are taken in either order with the same
  result, and polling runs after both. With the option set, in every run and whatever
  other events come in between, the fetches issued are those of
  \<^verbatim>\<open>clearOldMessages\<close> on the answers given so far and the second task is its
  promise: after non-empty batches and an empty one, every later offset is the last
  \<^verbatim>\<open>update_id\<close> of the batch before plus 1 and the second task is fulfilled.
  Without the option the second task is pending until the timer fires and fulfilled
  from then on.
\<close>

theorem startup_step_one:
  assumes fresh: "tgBot_arg a = new_Telegraf"
  shows "trace (setup_fn a) =
           [SettingsOn ''bridgeUpdate'', GetMe,
            if telegram_skipOldMessages (settings_arg a)
            then GetUpdates (getUpdates (- 1)) else Sleep 1000]
       \<and> getMe_p (setup_fn a) = Pending \<and> second_p (setup_fn a) = Pending
       \<and> (telegram_skipOldMessages (settings_arg a) \<longrightarrow>
             drain (setup_fn a) = Some (- 1) \<and> \<not> sleeping (setup_fn a)
             \<and> (\<forall>n. Sleep n \<notin> set (trace (run a es (setup_fn a)))))
       \<and> (\<not> telegram_skipOldMessages (settings_arg a) \<longrightarrow>
             sleeping (setup_fn a) \<and> drain (setup_fn a) = None
             \<and> (\<forall>f. GetUpdates f \<notin> set (trace (run a es (setup_fn a)))))
       \<and> run a [GetMeDone (Resolves m), second_done a] (setup_fn a) =
           run a [second_done a, GetMeDone (Resolves m)] (setup_fn a)
       \<and> polling (bot (run a [second_done a, GetMeDone (Resolves m)] (setup_fn a)))
       \<and> (telegram_skipOldMessages (settings_arg a) \<longrightarrow>
             fetches (trace (run a es (setup_fn a))) = fst (clearOldMessages_default (answers es))
             \<and> second_p (run a es (setup_fn a)) = snd (clearOldMessages_default (answers es)))
       \<and> (telegram_skipOldMessages (settings_arg a)
             \<and> answers es = map Resolves bs @ Resolves [] # rest \<and> (\<forall>b \<in> set bs. b \<noteq> []) \<longrightarrow>
             fetches (trace (run a es (setup_fn a))) =
               map getUpdates (- 1 # map (\<lambda>b. update_id (last b) + 1) bs)
             \<and> second_p (run a es (setup_fn a)) = Fulfilled ())
       \<and> (\<not> telegram_skipOldMessages (settings_arg a) \<longrightarrow>
             second_p (run a es (setup_fn a)) = (if slept es then Fulfilled () else Pending))"
proof -
  let ?w = "run a es (setup_fn a)"
  note ti = inv_reachable(2) [OF fresh, of es]
  obtain offs tail where
    tr: "trace ?w = startup_trace a @ map (\<lambda>off. GetUpdates (getUpdates off)) offs @ tail"
    and sk: "\<not> telegram_skipOldMessages (settings_arg a) \<longrightarrow> offs = []"
    and tl: "tail = [] \<or> (\<exists>v. tail = identity_trace @ StartPolling # v \<and> set v \<subseteq> {SetTimeout 5000, GetMyCommands})"
    by (rule trace_inv_shape [OF ti])
  have tailG: "GetUpdates f \<notin> set tail" for f
    using tl GetUpdates_notin_identity [of f] by auto
  have tailS: "Sleep n \<notin> set tail" for n
    using tl Sleep_notin_identity [of n] by auto
  have noSleep: "telegram_skipOldMessages (settings_arg a) \<longrightarrow> (\<forall>n. Sleep n \<notin> set (trace ?w))"
    unfolding tr using tailS by (auto simp: startup_trace_def)
  have noFetch: "\<not> telegram_skipOldMessages (settings_arg a) \<longrightarrow> (\<forall>f. GetUpdates f \<notin> set (trace ?w))"
    unfolding tr using tailG sk by (auto simp: startup_trace_def)
  have s: "trace (setup_fn a) =
           [SettingsOn ''bridgeUpdate'', GetMe,
            if telegram_skipOldMessages (settings_arg a)
            then GetUpdates (getUpdates (- 1)) else Sleep 1000]
       \<and> getMe_p (setup_fn a) = Pending \<and> second_p (setup_fn a) = Pending
       \<and> (telegram_skipOldMessages (settings_arg a) \<longrightarrow>
             drain (setup_fn a) = Some (- 1) \<and> \<not> sleeping (setup_fn a))
       \<and> (\<not> telegram_skipOldMessages (settings_arg a) \<longrightarrow>
             sleeping (setup_fn a) \<and> drain (setup_fn a) = None)"
    by (simp add: setup_fn_def)
  have c: "run a [GetMeDone (Resolves m), second_done a] (setup_fn a) =
           run a [second_done a, GetMeDone (Resolves m)] (setup_fn a)"
    by (simp add: second_done_def setup_fn_def settle_all_def promise_all_def to_promise_def
        nextOffset_def step_def startPolling_def on_identity_def)
  have p: "polling (bot (run a [second_done a, GetMeDone (Resolves m)] (setup_fn a)))"
    by (simp add: second_done_def setup_fn_def settle_all_def promise_all_def to_promise_def
        nextOffset_def step_def startPolling_def on_identity_def)
  have dr: "telegram_skipOldMessages (settings_arg a) \<longrightarrow>
             fetches (trace ?w) = fst (clearOldMessages_default (answers es))
             \<and> second_p ?w = snd (clearOldMessages_default (answers es))"
    using setup_drains_by_clearOldMessages [OF fresh, of es] by blast
  have dd: "telegram_skipOldMessages (settings_arg a)
             \<and> answers es = map Resolves bs @ Resolves [] # rest \<and> (\<forall>b \<in> set bs. b \<noteq> []) \<longrightarrow>
             fetches (trace ?w) = map getUpdates (- 1 # map (\<lambda>b. update_id (last b) + 1) bs)
             \<and> second_p ?w = Fulfilled ()"
  proof (intro impI, elim conjE)
    assume k: "telegram_skipOldMessages (settings_arg a)"
      and an: "answers es = map Resolves bs @ Resolves [] # rest"
      and ne: "\<forall>b \<in> set bs. b \<noteq> []"
    from clearOldMessages_drained [OF ne, of rest "- 1"] an
    have "clearOldMessages_default (answers es) =
        (map getUpdates (- 1 # map (\<lambda>b. update_id (last b) + 1) bs), Fulfilled ())"
      by (simp only: clearOldMessages_default_def)
    with setup_drains_by_clearOldMessages [OF fresh k, of es]
    show "fetches (trace ?w) = map getUpdates (- 1 # map (\<lambda>b. update_id (last b) + 1) bs)
             \<and> second_p ?w = Fulfilled ()"
      by (simp only: fst_conv snd_conv)
  qed
  have sl: "\<not> telegram_skipOldMessages (settings_arg a) \<longrightarrow>
             second_p ?w = (if slept es then Fulfilled () else Pending)"
    using setup_sleeps [OF fresh, of es] by blast
  from s noSleep noFetch c p dr dd sl show ?thesis by blast
qed

theorem startup_step_one_witness:
  "tgBot_arg (example_args False) = new_Telegraf
   \<and> trace (setup_fn (example_args False)) = [SettingsOn ''bridgeUpdate'', GetMe, Sleep 1000]
   \<and> sleeping (setup_fn (example_args False)) \<and> drain (setup_fn (example_args False)) = None
   \<and> GetUpdates (getUpdates (- 1)) \<notin> set (trace (run (example_args False)
        [GetUpdatesDone (Resolves []), GetMeDone (Resolves example_user), SleepDone]
        (setup_fn (example_args False))))
   \<and> polling (bot (run (example_args False)
        [second_done (example_args False), GetMeDone (Resolves example_user)]
        (setup_fn (example_args False))))
   \<and> tgBot_arg (example_args True) = new_Telegraf
   \<and> trace (setup_fn (example_args True)) =
        [SettingsOn ''bridgeUpdate'', GetMe, GetUpdates (getUpdates (- 1))]
   \<and> drain (setup_fn (example_args True)) = Some (- 1)
   \<and> Sleep 1000 \<notin> set (trace (run (example_args True)
        [SleepDone, GetMeDone (Resolves example_user), GetUpdatesDone (Resolves [])]
        (setup_fn (example_args True))))
   \<and> second_p (run (example_args False)
        [GetUpdatesDone (Resolves []), GetMeDone (Resolves example_user), SleepDone]
        (setup_fn (example_args False))) = Fulfilled ()
   \<and> answers [GetUpdatesDone (Resolves [\<lparr>update_id = 5\<rparr>]), GetMeDone (Resolves example_user),
         GetUpdatesDone (Resolves [] :: update list settled),
         GetUpdatesDone (Resolves [\<lparr>update_id = 9\<rparr>]) :: nat event]
      = map Resolves [[\<lparr>update_id = 5\<rparr>]] @ Resolves [] # [Resolves [\<lparr>update_id = 9\<rparr>]]
   \<and> fetches (trace (run (example_args True)
        [GetUpdatesDone (Resolves [\<lparr>update_id = 5\<rparr>]), GetMeDone (Resolves example_user),
         GetUpdatesDone (Resolves []), GetUpdatesDone (Resolves [\<lparr>update_id = 9\<rparr>])]
        (setup_fn (example_args True))))
      = [getUpdates (- 1), getUpdates 6]
   \<and> second_p (run (example_args True)
        [GetUpdatesDone (Resolves [\<lparr>update_id = 5\<rparr>]), GetMeDone (Resolves example_user),
         GetUpdatesDone (Resolves []), GetUpdatesDone (Resolves [\<lparr>update_id = 9\<rparr>])]
        (setup_fn (example_args True))) = Fulfilled ()
   \<and> second_p (run (example_args True)
        [GetUpdatesDone (Resolves [\<lparr>update_id = 5\<rparr>]), GetMeDone (Resolves example_user)]
        (setup_fn (example_args True))) = Pending"
proof -
  have f: "tgBot_arg (example_args False) = new_Telegraf"
    by (simp add: example_args_def)
  have k: "\<not> telegram_skipOldMessages (settings_arg (example_args False))"
    by (simp add: example_args_def)
  have t: "trace (setup_fn (example_args False)) = [SettingsOn ''bridgeUpdate'', GetMe, Sleep 1000]"
    by (simp add: eval_defs)
  have sl: "slept [GetUpdatesDone (Resolves []), GetMeDone (Resolves example_user), SleepDone :: nat event]"
    by simp
  note th = startup_step_one [OF f, where m = example_user
      and es = "[GetUpdatesDone (Resolves []), GetMeDone (Resolves example_user), SleepDone]"]
  from th k have s: "sleeping (setup_fn (example_args False))"
    and d: "drain (setup_fn (example_args False)) = None"
    and g: "GetUpdates (getUpdates (- 1)) \<notin> set (trace (run (example_args False)
        [GetUpdatesDone (Resolves []), GetMeDone (Resolves example_user), SleepDone]
        (setup_fn (example_args False))))"
    and p: "polling (bot (run (example_args False)
        [second_done (example_args False), GetMeDone (Resolves example_user)]
        (setup_fn (example_args False))))"
    by blast+
  from th k have "second_p (run (example_args False)
        [GetUpdatesDone (Resolves []), GetMeDone (Resolves example_user), SleepDone]
        (setup_fn (example_args False))) =
      (if slept [GetUpdatesDone (Resolves []), GetMeDone (Resolves example_user), SleepDone :: nat event]
       then Fulfilled () else Pending)"
    by blast
  with sl have q: "second_p (run (example_args False)
        [GetUpdatesDone (Resolves []), GetMeDone (Resolves example_user), SleepDone]
        (setup_fn (example_args False))) = Fulfilled ()"
    by (simp only: if_True)
  have f': "tgBot_arg (example_args True) = new_Telegraf"
    by (simp add: example_args_def)
  have k': "telegram_skipOldMessages (settings_arg (example_args True))"
    by (simp add: example_args_def)
  have t': "trace (setup_fn (example_args True)) =
        [SettingsOn ''bridgeUpdate'', GetMe, GetUpdates (getUpdates (- 1))]"
    by (simp add: eval_defs)
  note th' = startup_step_one [OF f', where m = example_user
      and es = "[SleepDone, GetMeDone (Resolves example_user), GetUpdatesDone (Resolves [])]"]
  from th' k' have d': "drain (setup_fn (example_args True)) = Some (- 1)"
    and g': "Sleep 1000 \<notin> set (trace (run (example_args True)
        [SleepDone, GetMeDone (Resolves example_user), GetUpdatesDone (Resolves [])]
        (setup_fn (example_args True))))"
    by blast+
  have an: "answers [GetUpdatesDone (Resolves [\<lparr>update_id = 5\<rparr>]), GetMeDone (Resolves example_user),
         GetUpdatesDone (Resolves [] :: update list settled),
         GetUpdatesDone (Resolves [\<lparr>update_id = 9\<rparr>]) :: nat event]
      = map Resolves [[\<lparr>update_id = 5\<rparr>]] @ Resolves [] # [Resolves [\<lparr>update_id = 9\<rparr>]]"
    by simp
  have ne: "\<forall>b \<in> set [[\<lparr>update_id = 5\<rparr>]]. b \<noteq> []"
    by simp
  note th2 = startup_step_one [OF f', where m = example_user
      and es = "[GetUpdatesDone (Resolves [\<lparr>update_id = 5\<rparr>]), GetMeDone (Resolves example_user),
         GetUpdatesDone (Resolves []), GetUpdatesDone (Resolves [\<lparr>update_id = 9\<rparr>])]"
      and bs = "[[\<lparr>update_id = 5\<rparr>]]" and rest = "[Resolves [\<lparr>update_id = 9\<rparr>]]"]
  from th2 k' an ne have "fetches (trace (run (example_args True)
        [GetUpdatesDone (Resolves [\<lparr>update_id = 5\<rparr>]), GetMeDone (Resolves example_user),
         GetUpdatesDone (Resolves []), GetUpdatesDone (Resolves [\<lparr>update_id = 9\<rparr>])]
        (setup_fn (example_args True))))
      = map getUpdates (- 1 # map (\<lambda>b. update_id (last b) + 1) [[\<lparr>update_id = 5\<rparr>]])"
    and q2: "second_p (run (example_args True)
        [GetUpdatesDone (Resolves [\<lparr>update_id = 5\<rparr>]), GetMeDone (Resolves example_user),
         GetUpdatesDone (Resolves []), GetUpdatesDone (Resolves [\<lparr>update_id = 9\<rparr>])]
        (setup_fn (example_args True))) = Fulfilled ()"
    by blast+
  then have ft: "fetches (trace (run (example_args True)
        [GetUpdatesDone (Resolves [\<lparr>update_id = 5\<rparr>]), GetMeDone (Resolves example_user),
         GetUpdatesDone (Resolves []), GetUpdatesDone (Resolves [\<lparr>update_id = 9\<rparr>])]
        (setup_fn (example_args True))))
      = [getUpdates (- 1), getUpdates 6]"
    by (simp del: run.simps)
  note th3 = startup_step_one [OF f', where m = example_user
      and es = "[GetUpdatesDone (Resolves [\<lparr>update_id = 5\<rparr>]), GetMeDone (Resolves example_user)]"]
  from th3 k' have "second_p (run (example_args True)
        [GetUpdatesDone (Resolves [\<lparr>update_id = 5\<rparr>]), GetMeDone (Resolves example_user)]
        (setup_fn (example_args True))) =
      snd (clearOldMessages_default
        (answers [GetUpdatesDone (Resolves [\<lparr>update_id = 5\<rparr>]), GetMeDone (Resolves example_user) :: nat event]))"
    by blast
  then have q3: "second_p (run (example_args True)
        [GetUpdatesDone (Resolves [\<lparr>update_id = 5\<rparr>]), GetMeDone (Resolves example_user)]
        (setup_fn (example_args True))) = Pending"
    by (simp add: clearOldMessages_default_def nextOffset_def del: run.simps)
  from f t s d g p f' t' d' g' q an ft q2 q3 show ?thesis by blast
qed

text \<open>
  C10. The listener is subscribed by the synchronous part of setup, while the promise
  of \<^verbatim>\<open>Promise.all\<close> is pending. In every run in which that promise has not been
  fulfilled (the first callback of the ready chain has not run), the context is
  undefined and a \<^verbatim>\<open>bridgeUpdate\<close> notification makes the listener throw a
  TypeError: the state changes by the thrown error only, and no table is swapped.
\<close>

theorem early_bridgeUpdate_throws:
  assumes fresh: "tgBot_arg a = new_Telegraf"
    and early: "\<forall>m. all_p (run a es (setup_fn a)) \<noteq> Fulfilled m"
  shows "bridgeUpdate_listener (setup_fn a)
       \<and> all_p (setup_fn a) = Pending
       \<and> bridgeUpdate_listener (run a es (setup_fn a))
       \<and> context_TediCross (bot (run a es (setup_fn a))) = None
       \<and> on_bridgeUpdate newBridgeMap (bot (run a es (setup_fn a))) =
           Inl (TypeError ''Cannot set properties of undefined (setting bridgeMap)'')
       \<and> step a (BridgeUpdate newBridgeMap) (run a es (setup_fn a)) =
           (run a es (setup_fn a))
             \<lparr>thrown := thrown (run a es (setup_fn a)) @
                [TypeError ''Cannot set properties of undefined (setting bridgeMap)'']\<rparr>"
proof -
  let ?w = "run a es (setup_fn a)"
  note st = inv_reachable(1) [OF fresh, of es]
  from state_inv_not_fulfilled_idle [OF st early]
  have c: "context_TediCross (bot ?w) = None" and x: "\<not> exited ?w"
    by (simp_all add: idle_def new_Telegraf_def)
  from st have l: "bridgeUpdate_listener ?w"
    by (simp add: state_inv_def)
  have s: "bridgeUpdate_listener (setup_fn a) \<and> all_p (setup_fn a) = Pending"
    by (simp add: setup_fn_def)
  from c l s x show ?thesis
    by (simp add: on_bridgeUpdate_def step_def)
qed

theorem early_bridgeUpdate_throws_witness:
  "tgBot_arg (example_args False) = new_Telegraf
   \<and> all_p (run (example_args False) [GetMeDone (Resolves example_user)]
        (setup_fn (example_args False))) = Pending
   \<and> thrown (step (example_args False) (BridgeUpdate 11)
        (run (example_args False) [GetMeDone (Resolves example_user)]
           (setup_fn (example_args False))))
      = [TypeError ''Cannot set properties of undefined (setting bridgeMap)'']
   \<and> context_TediCross (bot (step (example_args False) (BridgeUpdate 11)
        (run (example_args False) [GetMeDone (Resolves example_user)]
           (setup_fn (example_args False))))) = None"
proof -
  have f: "tgBot_arg (example_args False) = new_Telegraf"
    by (simp add: example_args_def)
  have p: "all_p (run (example_args False) [GetMeDone (Resolves example_user)]
        (setup_fn (example_args False))) = Pending"
    by (simp add: eval_defs)
  then have e: "\<forall>m. all_p (run (example_args False) [GetMeDone (Resolves example_user)]
        (setup_fn (example_args False))) \<noteq> Fulfilled m"
    by simp
  have t: "thrown (run (example_args False) [GetMeDone (Resolves example_user)]
        (setup_fn (example_args False))) = []"
    by (simp add: eval_defs)
  show ?thesis
    using f p t early_bridgeUpdate_throws [OF f e, of 11] by simp
qed

end
